theory Spec2Isabelle
  imports Main
begin

section \<open>JavaScript strings and numbers\<close>

text \<open>
  A JavaScript string is modelled as a \<open>string\<close>, one \<open>char\<close> per code unit, so
  \<open>length\<close> is the \<open>.length\<close> that zod's \<open>min\<close> and \<open>max\<close> read. What is proved of
  the handlers uses nothing of a code unit but equality.

  \<open>String.prototype.toUpperCase\<close> follows Unicode's case tables: it changes letters
  outside ASCII as well and can change the length of a string (the sharp s becomes
  \<open>SS\<close>). It belongs to the JavaScript runtime, so the handlers take it as the
  argument \<open>up\<close>, and what is proved of them holds for every such function.
  \<open>ascii_toUpperCase\<close> is what it does on ASCII text; only the examples use it.
  \<open>toLowerCase\<close> on ASCII letters serves the model of \<open>slugify\<close> below.
\<close>

definition lower_letters :: string where
  "lower_letters = ''abcdefghijklmnopqrstuvwxyz''"

definition upper_letters :: string where
  "upper_letters = ''ABCDEFGHIJKLMNOPQRSTUVWXYZ''"

definition toUpperCase_char :: "char \<Rightarrow> char" where
  "toUpperCase_char c =
     (case map_of (zip lower_letters upper_letters) c of None \<Rightarrow> c | Some u \<Rightarrow> u)"

definition toLowerCase_char :: "char \<Rightarrow> char" where
  "toLowerCase_char c =
     (case map_of (zip upper_letters lower_letters) c of None \<Rightarrow> c | Some l \<Rightarrow> l)"

definition ascii_toUpperCase :: "string \<Rightarrow> string" where
  "ascii_toUpperCase str = map toUpperCase_char str"

definition toLowerCase :: "string \<Rightarrow> string" where
  "toLowerCase str = map toLowerCase_char str"

text \<open>
  \<open>capitalizeFirstLetter\<close>: \<open>str.charAt(0).toUpperCase() + str.slice(1)\<close>. On the
  empty string \<open>charAt(0)\<close> is the empty string, which is what \<open>take 1\<close> gives.
\<close>

definition capitalizeFirstLetter :: "(string \<Rightarrow> string) \<Rightarrow> string \<Rightarrow> string" where
  "capitalizeFirstLetter up str = up (take 1 str) @ drop 1 str"

text \<open>
  A non-negative integer inside a template literal (\<open>`${counter}`\<close>) is rendered in
  decimal, without leading zeros. (JavaScript switches to exponent notation from
  \<open>10\<^sup>2\<^sup>1\<close> on; counters and millisecond timestamps stay far below.)
\<close>

definition digit :: "nat \<Rightarrow> char" where
  "digit d = ''0123456789'' ! d"

fun decimal :: "nat \<Rightarrow> string" where
  "decimal n = (if n < 10 then [digit n] else decimal (n div 10) @ [digit (n mod 10)])"

declare decimal.simps [simp del]

definition is_digit :: "char \<Rightarrow> bool" where
  "is_digit c = (c \<in> set ''0123456789'')"

section \<open>The slug utility\<close>

text \<open>
  Modelled from the spec: \<open>slugify\<close>, imported from \<open>@/utils\<close>, is not among the
  sources. The spec (section 4.1) gives its contract: it "produces a lowercase,
  hyphen-separated, URL-safe token from arbitrary display text". The model lowercases
  the text, takes its maximal runs of letters and digits as the words, and joins the
  words with single hyphens.

  The handlers and seeders below take the slug function as their first argument
  \<open>sl\<close>, so what is proved of them holds for whatever \<open>slugify\<close> the repository has.
\<close>

definition is_slug_char :: "char \<Rightarrow> bool" where
  "is_slug_char c = (c \<in> set (lower_letters @ ''0123456789''))"

function slug_words :: "string \<Rightarrow> string list" where
  "slug_words s =
     (case dropWhile (\<lambda>c. \<not> is_slug_char c) s of
        [] \<Rightarrow> []
      | c # cs \<Rightarrow> takeWhile is_slug_char (c # cs) # slug_words (dropWhile is_slug_char (c # cs)))"
  by pat_completeness auto
termination
proof (relation "measure length")
  show "wf (measure length)" by simp
next
  fix s :: string and c cs
  assume d: "dropWhile (\<lambda>c. \<not> is_slug_char c) s = c # cs"
  have "is_slug_char c"
    using d hd_dropWhile [of "\<lambda>c. \<not> is_slug_char c" s] by auto
  then have "length (dropWhile is_slug_char (c # cs)) < length (c # cs)"
    using length_dropWhile_le [of is_slug_char cs] by simp
  moreover have "length (c # cs) \<le> length s"
    using length_dropWhile_le [of "\<lambda>c. \<not> is_slug_char c" s] d by simp
  ultimately show "(dropWhile is_slug_char (c # cs), s) \<in> measure length"
    by simp
qed

declare slug_words.simps [simp del]

fun hyphenate :: "string list \<Rightarrow> string" where
  "hyphenate [] = []"
| "hyphenate [w] = w"
| "hyphenate (w # v # ws) = w @ CHR ''-'' # hyphenate (v # ws)"

definition slugify :: "string \<Rightarrow> string" where
  "slugify text = hyphenate (slug_words (toLowerCase text))"

text \<open>A word of a slug: a non-empty run of lowercase letters and digits.\<close>

definition slug_word :: "string \<Rightarrow> bool" where
  "slug_word w = (w \<noteq> [] \<and> list_all is_slug_char w)"

section \<open>The schema\<close>

text \<open>
  The tables of \<open>schema.ts\<close> that the department handlers and the course seeder read
  or write, with the tables that a delete of courses cascades to. A timestamp is a
  number of milliseconds. A column without \<open>notNull()\<close> is an \<open>option\<close>.
\<close>

type_synonym timestamp = nat

record department =
  d_id :: string
  d_name :: string
  d_slug :: string
  d_createdAt :: timestamp
  d_updatedAt :: "timestamp option"

record course =
  c_id :: string
  c_departmentId :: string
  c_name :: "string option"
  c_slug :: string
  c_description :: "string option"
  c_createdAt :: timestamp
  c_updatedAt :: "timestamp option"

record field =
  f_id :: string
  f_courseId :: string
  f_name :: string

record lessonRoster =
  lr_id :: string
  lr_courseId :: string
  lr_creatorId :: string
  lr_name :: "string option"
  lr_slug :: string
  lr_notes :: "string option"
  lr_createdAt :: timestamp
  lr_updatedAt :: "timestamp option"

record mark =
  mk_id :: string
  mk_fieldId :: string
  mk_studentId :: string
  mk_amount :: string

record session =
  s_id :: string
  s_lessonRosterId :: string
  s_name :: string

record attendance =
  a_id :: string
  a_studentId :: string
  a_periodId :: string
  a_type :: string

record courseToAcademy =
  ca_courseId :: string
  ca_departmentId :: string

record studentToLessonRoster =
  sl_studentId :: string
  sl_lessonRosterId :: string

text \<open>
  Modelled from the spec: the role enumeration \<open>departmentUserRole\<close> of
  \<open>@/types/roles\<close> and the table \<open>userToDepartment\<close> are imported by the handlers but
  are not among the sources. The spec (section 3) describes a membership as a pairing
  of a user and a department "tagged with a role within that department (e.g.,
  leader, lecturer)"; the columns are the ones the add-member handler inserts.
\<close>

datatype departmentUserRole = LEADER | LECTURER

record membership =
  m_userId :: string
  m_departmentId :: string
  m_role :: departmentUserRole

record db =
  departmentsTable :: "department list"
  coursesTable :: "course list"
  fieldsTable :: "field list"
  lessonRostersTable :: "lessonRoster list"
  marks :: "mark list"
  sessionsTable :: "session list"
  attendanceTable :: "attendance list"
  coursesToAcademies :: "courseToAcademy list"
  studentsToLessonRosters :: "studentToLessonRoster list"
  userToDepartment :: "membership list"

text \<open>
  The foreign keys of \<open>schema.ts\<close> among these tables (\<open>references(...)\<close>): what the
  database keeps true of every stored state.
\<close>

definition referential_integrity :: "db \<Rightarrow> bool" where
  "referential_integrity s =
     (list_all (\<lambda>c. c_departmentId c \<in> set (map d_id (departmentsTable s))) (coursesTable s)
      \<and> list_all (\<lambda>f. f_courseId f \<in> set (map c_id (coursesTable s))) (fieldsTable s)
      \<and> list_all (\<lambda>r. lr_courseId r \<in> set (map c_id (coursesTable s))) (lessonRostersTable s)
      \<and> list_all (\<lambda>m. mk_fieldId m \<in> set (map f_id (fieldsTable s))) (marks s)
      \<and> list_all (\<lambda>x. s_lessonRosterId x \<in> set (map lr_id (lessonRostersTable s))) (sessionsTable s)
      \<and> list_all (\<lambda>a. a_periodId a \<in> set (map s_id (sessionsTable s))) (attendanceTable s)
      \<and> list_all (\<lambda>l. ca_courseId l \<in> set (map c_id (coursesTable s))
                       \<and> ca_departmentId l \<in> set (map d_id (departmentsTable s)))
           (coursesToAcademies s)
      \<and> list_all (\<lambda>l. sl_lessonRosterId l \<in> set (map lr_id (lessonRostersTable s)))
           (studentsToLessonRosters s))"

text \<open>
  \<open>db.delete(coursesTable)\<close>: every course row goes, and with it (\<open>onDelete: "cascade"\<close>)
  every row that references a deleted row, transitively.
\<close>

definition delete_all_courses :: "db \<Rightarrow> db" where
  "delete_all_courses s =
     (let gone_courses = set (map c_id (coursesTable s));
          gone_fields = set (map f_id (filter (\<lambda>f. f_courseId f \<in> gone_courses) (fieldsTable s)));
          gone_rosters = set (map lr_id
            (filter (\<lambda>r. lr_courseId r \<in> gone_courses) (lessonRostersTable s)));
          gone_sessions = set (map s_id
            (filter (\<lambda>x. s_lessonRosterId x \<in> gone_rosters) (sessionsTable s)))
      in s\<lparr>coursesTable := [],
           fieldsTable := filter (\<lambda>f. f_courseId f \<notin> gone_courses) (fieldsTable s),
           lessonRostersTable :=
             filter (\<lambda>r. lr_courseId r \<notin> gone_courses) (lessonRostersTable s),
           marks := filter (\<lambda>m. mk_fieldId m \<notin> gone_fields) (marks s),
           sessionsTable :=
             filter (\<lambda>x. s_lessonRosterId x \<notin> gone_rosters) (sessionsTable s),
           attendanceTable := filter (\<lambda>a. a_periodId a \<notin> gone_sessions) (attendanceTable s),
           coursesToAcademies :=
             filter (\<lambda>l. ca_courseId l \<notin> gone_courses) (coursesToAcademies s),
           studentsToLessonRosters :=
             filter (\<lambda>l. sl_lessonRosterId l \<notin> gone_rosters) (studentsToLessonRosters s)\<rparr>)"

section \<open>The department handlers\<close>

text \<open>
  A handler takes the request and the stored state and returns the reply (the status
  and the JSON body) with the new state. What a handler reads from its environment
  while it runs is a \<open>runtime\<close>: the successive values of \<open>new Date()\<close> and of
  \<open>crypto.randomUUID()\<close>, numbered from 0 in the order of the calls.
\<close>

datatype body =
  Data
  | Error_format "(string \<times> string list) list"
  | Error_message string

type_synonym reply = "nat \<times> body"

record runtime =
  new_Date :: "nat \<Rightarrow> timestamp"
  randomUUID :: "nat \<Rightarrow> string"

text \<open>
  The request bodies, as the zod schemas type them. A \<open>name\<close> of \<open>None\<close> is a body
  without the field; zod's \<open>format()\<close> of a failed parse is the list of the fields in
  error, each with its messages.
\<close>

record createDepartmentBody =
  cb_name :: "string option"

definition createDepartmentSchema ::
  "createDepartmentBody \<Rightarrow> (string \<times> string list) list + string" where
  "createDepartmentSchema b =
     (case cb_name b of
        None \<Rightarrow> Inl [(''name'', [''Required''])]
      | Some n \<Rightarrow>
          if length n < 2 then Inl [(''name'', [''Name must be at least 2 characters''])]
          else if length n > 100 then Inl [(''name'', [''Name is too long''])]
          else Inr n)"

record assignBody =
  ab_userId :: string
  ab_departmentId :: string
  ab_role :: "departmentUserRole option"

definition assignUserToDepartmentSchema ::
  "assignBody \<Rightarrow> (string \<times> string list) list + membership" where
  "assignUserToDepartmentSchema b =
     (let errors =
            (if length (ab_userId b) < 1 then [(''userId'', [''User Must be selected''])] else [])
            @ (if length (ab_departmentId b) < 1
               then [(''departmentId'', [''Department Must be selected''])] else [])
      in if errors = []
         then Inr \<lparr>m_userId = ab_userId b, m_departmentId = ab_departmentId b,
                   m_role = (case ab_role b of None \<Rightarrow> LECTURER | Some r \<Rightarrow> r)\<rparr>
         else Inl errors)"

record idObject_item =
  io_userId :: string
  io_departmentId :: string

subsection \<open>GET /\<close>

record department_row =
  row_id :: string
  row_name :: string
  row_slug :: string
  row_createdAt :: timestamp
  row_updatedAt :: "timestamp option"
  leadersCount :: nat
  lecturersCount :: nat
  coursesCount :: nat

definition leftJoin :: "'a list \<Rightarrow> 'b list \<Rightarrow> ('a \<Rightarrow> 'b \<Rightarrow> bool) \<Rightarrow> ('a \<times> 'b option) list" where
  "leftJoin xs ys on =
     concat (map (\<lambda>x. case filter (on x) ys of
                         [] \<Rightarrow> [(x, None)]
                       | m # ms \<Rightarrow> map (\<lambda>y. (x, Some y)) (m # ms)) xs)"

type_synonym joined_row = "(department \<times> course option) \<times> membership option"

definition joined_rows :: "db \<Rightarrow> joined_row list" where
  "joined_rows s =
     leftJoin
       (leftJoin (departmentsTable s) (coursesTable s) (\<lambda>d c. d_id d = c_departmentId c))
       (userToDepartment s)
       (\<lambda>dc m. d_id (fst dc) = m_departmentId m)"

text \<open>
  The correlated subquery \<open>SELECT COUNT(*) FROM userToDepartment WHERE role = ... AND
  departmentId = departments.id\<close>.
\<close>

definition count_role :: "db \<Rightarrow> departmentUserRole \<Rightarrow> string \<Rightarrow> nat" where
  "count_role s r k =
     length (filter (\<lambda>m. m_role m = r \<and> m_departmentId m = k) (userToDepartment s))"

text \<open>
  One result row per group of \<open>groupBy(departmentsTable.id)\<close>. The plain columns are
  those of the group's department (the id is the primary key); \<open>count(distinct
  course.id)\<close> counts the different non-null course ids among the joined rows of the
  group.
\<close>

definition select_group :: "db \<Rightarrow> joined_row list \<Rightarrow> department_row list" where
  "select_group s g =
     (case g of
        [] \<Rightarrow> []
      | r # rs \<Rightarrow>
          [\<lparr>row_id = d_id (fst (fst r)),
            row_name = d_name (fst (fst r)),
            row_slug = d_slug (fst (fst r)),
            row_createdAt = d_createdAt (fst (fst r)),
            row_updatedAt = d_updatedAt (fst (fst r)),
            leadersCount = count_role s LEADER (d_id (fst (fst r))),
            lecturersCount = count_role s LECTURER (d_id (fst (fst r))),
            coursesCount =
              length (remdups (List.map_filter (\<lambda>j. map_option c_id (snd (fst j))) (r # rs)))\<rparr>])"

definition departments_get :: "db \<Rightarrow> department_row list" where
  "departments_get s =
     concat (map (\<lambda>k. select_group s (filter (\<lambda>j. d_id (fst (fst j)) = k) (joined_rows s)))
               (remdups (map (\<lambda>j. d_id (fst (fst j))) (joined_rows s))))"

subsection \<open>POST /\<close>

text \<open>
  The \<open>while\<close> loop of the create handler: as long as \<open>findFirst\<close> finds a department
  with the candidate slug, the candidate becomes \<open>`${baseSlug}-${counter}`\<close> and the
  counter goes up. \<open>None\<close> stands for a loop that never ends.
\<close>

partial_function (option) slug_search ::
  "department list \<Rightarrow> string \<Rightarrow> string \<Rightarrow> nat \<Rightarrow> string option" where
  "slug_search rows baseSlug slug counter =
     (if find (\<lambda>department. d_slug department = slug) rows \<noteq> None
      then slug_search rows baseSlug (baseSlug @ ''-'' @ decimal counter) (counter + 1)
      else Some slug)"

text \<open>
  \<open>db.insert(departmentsTable).values(...)\<close>: the primary key, the \<open>unique()\<close> slug and
  the \<open>varchar(255)\<close> columns reject a row (\<open>None\<close>: the driver throws).
\<close>

definition insert_department :: "department \<Rightarrow> db \<Rightarrow> db option" where
  "insert_department d s =
     (if d_id d \<in> set (map d_id (departmentsTable s))
         \<or> d_slug d \<in> set (map d_slug (departmentsTable s))
         \<or> length (d_name d) > 255 \<or> length (d_slug d) > 255
      then None
      else Some (s\<lparr>departmentsTable := departmentsTable s @ [d]\<rparr>))"

definition departments_post ::
  "(string \<Rightarrow> string) \<Rightarrow> (string \<Rightarrow> string) \<Rightarrow> runtime \<Rightarrow> createDepartmentBody \<Rightarrow> db
     \<Rightarrow> (reply \<times> db) option" where
  "departments_post sl up rt b s =
     (case createDepartmentSchema b of
        Inl e \<Rightarrow> Some ((400, Error_format e), s)
      | Inr name \<Rightarrow>
          (case slug_search (departmentsTable s) (sl name) (sl name) 1 of
             None \<Rightarrow> None
           | Some slug \<Rightarrow>
               (case insert_department
                       \<lparr>d_id = randomUUID rt 0,
                        d_name = capitalizeFirstLetter up name,
                        d_slug = sl name,
                        d_createdAt = new_Date rt 0,
                        d_updatedAt = Some (new_Date rt 1)\<rparr> s of
                  None \<Rightarrow> Some ((500, Error_message ''Internal Server Error''), s)
                | Some s' \<Rightarrow> Some ((201, Data), s'))))"

subsection \<open>PUT /:slug\<close>

text \<open>
  \<open>db.update(departmentsTable).set({name, createdAt, updatedAt}).where(eq(slug, slug))\<close>.
  A name beyond \<open>varchar(255)\<close> is rejected when a row is to be written.
\<close>

definition update_department_by_slug ::
  "string \<Rightarrow> string \<Rightarrow> timestamp \<Rightarrow> timestamp \<Rightarrow> db \<Rightarrow> db option" where
  "update_department_by_slug slug name created updated s =
     (if filter (\<lambda>d. d_slug d = slug) (departmentsTable s) \<noteq> [] \<and> length name > 255
      then None
      else Some (s\<lparr>departmentsTable :=
             map (\<lambda>d. if d_slug d = slug
                       then d\<lparr>d_name := name, d_createdAt := created, d_updatedAt := Some updated\<rparr>
                       else d)
               (departmentsTable s)\<rparr>))"

definition departments_put ::
  "(string \<Rightarrow> string) \<Rightarrow> runtime \<Rightarrow> string \<Rightarrow> createDepartmentBody \<Rightarrow> db \<Rightarrow> reply \<times> db" where
  "departments_put up rt slug b s =
     (case createDepartmentSchema b of
        Inl e \<Rightarrow> ((400, Error_format e), s)
      | Inr name \<Rightarrow>
          (case update_department_by_slug slug (capitalizeFirstLetter up name)
                  (new_Date rt 0) (new_Date rt 1) s of
             None \<Rightarrow> ((500, Error_message ''Internal Server Error''), s)
           | Some s' \<Rightarrow> ((200, Data), s')))"

subsection \<open>POST /members and PATCH /members\<close>

text \<open>
  The declaration of \<open>userToDepartment\<close> is not among the sources, so the constraints
  that can make its insert throw are the parameter \<open>admits\<close>: whether the table, in
  this state, takes the row.
\<close>

definition departments_members_post ::
  "(db \<Rightarrow> membership \<Rightarrow> bool) \<Rightarrow> assignBody \<Rightarrow> db \<Rightarrow> reply \<times> db" where
  "departments_members_post admits b s =
     (case assignUserToDepartmentSchema b of
        Inl e \<Rightarrow> ((400, Error_format e), s)
      | Inr m \<Rightarrow>
          if admits s m
          then ((200, Data), s\<lparr>userToDepartment := userToDepartment s @ [m]\<rparr>)
          else ((500, Error_message ''Internal Server Error''), s))"

text \<open>
  One \<open>db.delete(userToDepartment).where(and(eq(userId, ...), eq(departmentId, ...)))\<close>
  per item of \<open>idObject\<close>. \<open>Promise.all\<close> starts them together; each is one statement
  of the database, so the state they leave is the one of the deletes run in turn.
\<close>

definition delete_membership :: "idObject_item \<Rightarrow> db \<Rightarrow> db" where
  "delete_membership i s =
     s\<lparr>userToDepartment :=
         filter (\<lambda>m. \<not> (m_userId m = io_userId i \<and> m_departmentId m = io_departmentId i))
           (userToDepartment s)\<rparr>"

definition departments_members_patch :: "idObject_item list \<Rightarrow> db \<Rightarrow> reply \<times> db" where
  "departments_members_patch idObject s =
     ((200, Data), foldl (\<lambda>s' i. delete_membership i s') s idObject)"

text \<open>
  What a change of the membership table does to a row of the listing: the two
  subquery counts are taken again, everything else stays.
\<close>

definition recount :: "db \<Rightarrow> department_row \<Rightarrow> department_row" where
  "recount s r = r\<lparr>leadersCount := count_role s LEADER (row_id r),
                   lecturersCount := count_role s LECTURER (row_id r)\<rparr>"

section \<open>The seeders\<close>

text \<open>
  A seeder run reads random values and the clock. They are given to the model as
  sequences, one per source, indexed by the number of the call: \<open>chance\<close> holds the
  sequences, \<open>calls\<close> counts the calls made so far. \<open>Math_floor_random ch k n\<close> is
  \<open>Math.floor(Math.random() * n)\<close> at the \<open>k\<close>-th call of \<open>Math.random\<close>. A statement
  about every \<open>chance\<close> is a statement about every outcome of the random sources.
\<close>

record chance =
  faker_commerce_department :: "nat \<Rightarrow> string"
  Math_floor_random :: "nat \<Rightarrow> nat \<Rightarrow> nat"
  Date_now :: "nat \<Rightarrow> nat"
  faker_lorem_paragraph :: "nat \<Rightarrow> string"
  course_randomUUID :: "nat \<Rightarrow> string"
  course_defaultNow :: timestamp

record calls =
  names_drawn :: nat
  randoms_drawn :: nat
  clocks_read :: nat
  paragraphs_drawn :: nat

definition no_calls :: calls where
  "no_calls = \<lparr>names_drawn = 0, randoms_drawn = 0, clocks_read = 0, paragraphs_drawn = 0\<rparr>"

datatype thrown = TypeError | QueryError | NoValuesError | FakerError

datatype outcome = Returned | Threw thrown

subsection \<open>generateUniqueSlug\<close>

record generated =
  g_slug :: string
  g_name :: string

definition maxAttempts :: nat where
  "maxAttempts = 100"

text \<open>
  The \<open>while (attempts < maxAttempts)\<close> loop and the fallback after it, from the value
  \<open>attempts\<close> has on entry. The set \<open>existingSlugs\<close> is mutated by the source; the model
  returns it with the result.
\<close>

function attempts_from ::
  "(string \<Rightarrow> string) \<Rightarrow> chance \<Rightarrow> nat \<Rightarrow> string set \<Rightarrow> calls \<Rightarrow> generated \<times> string set \<times> calls" where
  "attempts_from sl ch attempts existingSlugs k =
     (if attempts < maxAttempts
      then
        (let name = faker_commerce_department ch (names_drawn k);
             slug = sl name;
             k1 = k\<lparr>names_drawn := names_drawn k + 1\<rparr>
         in if slug \<notin> existingSlugs
            then (\<lparr>g_slug = slug, g_name = name\<rparr>, insert slug existingSlugs, k1)
            else
              (let slugWithSuffix =
                     slug @ ''-'' @ decimal (Math_floor_random ch (randoms_drawn k1) 1000);
                   k2 = k1\<lparr>randoms_drawn := randoms_drawn k1 + 1\<rparr>
               in if slugWithSuffix \<notin> existingSlugs
                  then (\<lparr>g_slug = slugWithSuffix, g_name = name\<rparr>,
                        insert slugWithSuffix existingSlugs, k2)
                  else attempts_from sl ch (attempts + 1) existingSlugs k2))
      else
        (let timestamp = Date_now ch (clocks_read k);
             fallbackName = ''Course '' @ decimal timestamp;
             fallbackSlug = ''course-'' @ decimal timestamp
         in (\<lparr>g_slug = fallbackSlug, g_name = fallbackName\<rparr>,
             insert fallbackSlug existingSlugs,
             k\<lparr>clocks_read := clocks_read k + 1\<rparr>)))"
  by pat_completeness auto
termination
  by (relation "measure (\<lambda>(sl, ch, attempts, existingSlugs, k). maxAttempts - attempts)") auto

declare attempts_from.simps [simp del]

definition generateUniqueSlug ::
  "(string \<Rightarrow> string) \<Rightarrow> chance \<Rightarrow> string set \<Rightarrow> calls \<Rightarrow> generated \<times> string set \<times> calls" where
  "generateUniqueSlug sl ch existingSlugs k = attempts_from sl ch 0 existingSlugs k"

text \<open>
  The name and slug of the fallback, from the reading of \<open>Date.now()\<close> that is next;
  and what it means that attempt \<open>i\<close> (counted from the calls in \<open>k\<close>) finds both of
  its candidates in the set.
\<close>

definition fallback :: "chance \<Rightarrow> calls \<Rightarrow> generated" where
  "fallback ch k =
     \<lparr>g_slug = ''course-'' @ decimal (Date_now ch (clocks_read k)),
      g_name = ''Course '' @ decimal (Date_now ch (clocks_read k))\<rparr>"

definition candidates_taken :: "(string \<Rightarrow> string) \<Rightarrow> chance \<Rightarrow> string set \<Rightarrow> calls \<Rightarrow> nat \<Rightarrow> bool" where
  "candidates_taken sl ch existingSlugs k i =
     (sl (faker_commerce_department ch (names_drawn k + i)) \<in> existingSlugs
      \<and> sl (faker_commerce_department ch (names_drawn k + i)) @ ''-''
          @ decimal (Math_floor_random ch (randoms_drawn k + i) 1000) \<in> existingSlugs)"

subsection \<open>coursesSeeder\<close>

record new_course =
  nc_name :: string
  nc_slug :: string
  nc_departmentId :: string
  nc_description :: string

text \<open>
  The \<open>for\<close> loop that fills \<open>coursesData\<close>. \<open>departments[...]\<close> beyond the array is
  \<open>undefined\<close>, and reading its \<open>id\<close> throws.
\<close>

function coursesData_from ::
  "(string \<Rightarrow> string) \<Rightarrow> chance \<Rightarrow> string list \<Rightarrow> nat \<Rightarrow> nat \<Rightarrow> string set \<Rightarrow> calls
     \<Rightarrow> new_course list \<Rightarrow> thrown + (new_course list \<times> string set \<times> calls)" where
  "coursesData_from sl ch departments len i existingSlugs k coursesData =
     (if i < len
      then
        (let pick = Math_floor_random ch (randoms_drawn k) (length departments);
             k1 = k\<lparr>randoms_drawn := randoms_drawn k + 1\<rparr>
         in case generateUniqueSlug sl ch existingSlugs k1 of
              (g, existingSlugs', k2) \<Rightarrow>
                if pick < length departments
                then coursesData_from sl ch departments len (i + 1) existingSlugs'
                       (k2\<lparr>paragraphs_drawn := paragraphs_drawn k2 + 1\<rparr>)
                       (coursesData @
                          [\<lparr>nc_name = g_name g, nc_slug = g_slug g,
                            nc_departmentId = departments ! pick,
                            nc_description = faker_lorem_paragraph ch (paragraphs_drawn k2)\<rparr>])
                else Inl TypeError)
      else Inr (coursesData, existingSlugs, k))"
  by pat_completeness auto
termination
  by (relation "measure (\<lambda>(sl, ch, departments, len, i, existingSlugs, k, coursesData). len - i)")
    auto

declare coursesData_from.simps [simp del]

text \<open>
  \<open>db.insert(coursesTable).values(coursesData)\<close>: one statement. The query builder
  throws on an empty array of values; the database rejects the statement, and stores
  nothing of it, when a primary key or a \<open>unique()\<close> slug would repeat, a department
  is missing, or a \<open>varchar(255)\<close> is exceeded. The ids are the successive
  \<open>crypto.randomUUID()\<close>, the timestamps the database's \<open>now()\<close>.
\<close>

definition course_of :: "chance \<Rightarrow> nat \<Rightarrow> new_course \<Rightarrow> course" where
  "course_of ch i v =
     \<lparr>c_id = course_randomUUID ch i, c_departmentId = nc_departmentId v,
      c_name = Some (nc_name v), c_slug = nc_slug v, c_description = Some (nc_description v),
      c_createdAt = course_defaultNow ch, c_updatedAt = Some (course_defaultNow ch)\<rparr>"

definition insert_courses :: "chance \<Rightarrow> new_course list \<Rightarrow> db \<Rightarrow> thrown + db" where
  "insert_courses ch coursesData s =
     (if coursesData = [] then Inl NoValuesError
      else
        (let rows = map (\<lambda>i. course_of ch i (coursesData ! i)) [0..<length coursesData]
         in if distinct (map c_id (coursesTable s @ rows))
               \<and> distinct (map c_slug (coursesTable s @ rows))
               \<and> list_all (\<lambda>c. c_departmentId c \<in> set (map d_id (departmentsTable s))
                               \<and> length (c_id c) \<le> 255 \<and> length (c_departmentId c) \<le> 255
                               \<and> length (c_slug c) \<le> 255 \<and> (case c_name c of None \<Rightarrow> True | Some n \<Rightarrow> length n \<le> 255)) rows
            then Inr (s\<lparr>coursesTable := coursesTable s @ rows\<rparr>)
            else Inl QueryError))"

text \<open>
  \<open>coursesSeeder(length)\<close>. The result is how the call ends, the stored state it
  leaves, and the lines it logged. No \<open>try\<close> surrounds the body: what is thrown inside
  leaves the function.
\<close>

definition coursesSeeder ::
  "(string \<Rightarrow> string) \<Rightarrow> chance \<Rightarrow> nat \<Rightarrow> db \<Rightarrow> outcome \<times> db \<times> string list" where
  "coursesSeeder sl ch len s =
     (let s1 = delete_all_courses s;
          departments = map d_id (departmentsTable s1)
      in if length departments = 0
         then (Returned, s1, [''No departments found. Please seed departments first.''])
         else
           (case coursesData_from sl ch departments len 0 {} no_calls [] of
              Inl e \<Rightarrow> (Threw e, s1, [])
            | Inr (coursesData, existingSlugs, k) \<Rightarrow>
                (case insert_courses ch coursesData s1 of
                   Inl e \<Rightarrow> (Threw e, s1, [])
                 | Inr s2 \<Rightarrow> (Returned, s2, [decimal len @ '' new courses seeded!'']))))"

subsection \<open>userSeeder\<close>

text \<open>
  The user rows are the objects the seeder builds, with the generated id. (The seeder
  is written against a users table with a \<open>roleId\<close> column and a roles table; the
  role ids it reads are the argument \<open>roleIds\<close>.) Each faker function is called once
  per user, so its call number is the user's index in the run.
  \<open>faker.helpers.arrayElement\<close> gives \<open>None\<close> where the call throws.
\<close>

record new_user =
  u_name :: string
  u_email :: string
  u_emailVerified :: timestamp
  u_passwordHash :: string
  u_roleId :: string
  u_image :: string

record user_row = new_user +
  u_id :: string

record user_chance =
  faker_person_fullName :: "nat \<Rightarrow> string"
  faker_internet_email :: "nat \<Rightarrow> string"
  faker_date_recent :: "nat \<Rightarrow> timestamp"
  faker_internet_password :: "nat \<Rightarrow> string"
  faker_helpers_arrayElement :: "nat \<Rightarrow> string list \<Rightarrow> string option"
  faker_image_avatar :: "nat \<Rightarrow> string"
  user_randomUUID :: "nat \<Rightarrow> string"

text \<open>
  The callback of \<open>Array.from\<close>. In \<open>totalInserted + idx + faker.internet.email()\<close>
  the two numbers are added first and the sum is then joined, in decimal, with the
  generated address.
\<close>

definition new_user_at :: "user_chance \<Rightarrow> string list \<Rightarrow> nat \<Rightarrow> nat \<Rightarrow> new_user option" where
  "new_user_at ch roleIds totalInserted idx =
     (case faker_helpers_arrayElement ch (totalInserted + idx) roleIds of
        None \<Rightarrow> None
      | Some r \<Rightarrow>
          Some \<lparr>u_name = faker_person_fullName ch (totalInserted + idx),
                u_email = decimal (totalInserted + idx) @ faker_internet_email ch (totalInserted + idx),
                u_emailVerified = faker_date_recent ch (totalInserted + idx),
                u_passwordHash = faker_internet_password ch (totalInserted + idx),
                u_roleId = r,
                u_image = faker_image_avatar ch (totalInserted + idx)\<rparr>)"

text \<open>
  \<open>db.insert(usersTable).values(users)\<close>: rejected as a whole when an id or an email
  (\<open>unique()\<close>) would repeat or a \<open>varchar(255)\<close> is exceeded.
\<close>

definition user_row_of :: "user_chance \<Rightarrow> nat \<Rightarrow> new_user \<Rightarrow> user_row" where
  "user_row_of ch i v =
     \<lparr>u_name = u_name v, u_email = u_email v, u_emailVerified = u_emailVerified v,
      u_passwordHash = u_passwordHash v, u_roleId = u_roleId v, u_image = u_image v,
      u_id = user_randomUUID ch i\<rparr>"

definition insert_users ::
  "user_chance \<Rightarrow> nat \<Rightarrow> new_user list \<Rightarrow> user_row list \<Rightarrow> user_row list option" where
  "insert_users ch totalInserted users table =
     (let rows = map (\<lambda>idx. user_row_of ch (totalInserted + idx) (users ! idx)) [0..<length users]
      in if distinct (map u_id (table @ rows)) \<and> distinct (map u_email (table @ rows))
            \<and> list_all (\<lambda>u. length (u_id u) \<le> 255 \<and> length (u_name u) \<le> 255
                            \<and> length (u_email u) \<le> 255 \<and> length (u_passwordHash u) \<le> 255
                            \<and> length (u_image u) \<le> 255) rows
         then Some (table @ rows)
         else None)"

text \<open>
  The state of a run: the users table, the lines logged, and the users generated so
  far (every \<open>users\<close> array the loop has built, in order).
\<close>

record seeding =
  usersTable :: "user_row list"
  generated_users :: "new_user list"
  logged :: "string list"

definition batchSize :: nat where
  "batchSize = 1000"

function users_from ::
  "user_chance \<Rightarrow> string list \<Rightarrow> nat \<Rightarrow> nat \<Rightarrow> seeding \<Rightarrow> outcome \<times> seeding" where
  "users_from ch roleIds len totalInserted st =
     (if totalInserted < len
      then
        (let currentBatchSize = min batchSize (len - totalInserted)
         in case those (map (new_user_at ch roleIds totalInserted) [0..<currentBatchSize]) of
              None \<Rightarrow> (Threw FakerError, st)
            | Some users \<Rightarrow>
                (case insert_users ch totalInserted users (usersTable st) of
                   None \<Rightarrow>
                     (Threw QueryError, st\<lparr>generated_users := generated_users st @ users\<rparr>)
                 | Some table \<Rightarrow>
                     users_from ch roleIds len (totalInserted + currentBatchSize)
                       (st\<lparr>usersTable := table,
                           generated_users := generated_users st @ users,
                           logged := logged st @
                             [''Batch inserted: '' @ decimal currentBatchSize
                              @ '' users (Total: '' @ decimal (totalInserted + currentBatchSize)
                              @ ''/'' @ decimal len @ '')'']\<rparr>)))
      else
        (Returned,
         st\<lparr>logged := logged st @
               [''Seeding complete: '' @ decimal totalInserted
                @ '' users inserted in batches of '' @ decimal batchSize]\<rparr>))"
  by pat_completeness auto
termination
  by (relation "measure (\<lambda>(ch, roleIds, len, totalInserted, st). len - totalInserted)")
    (auto simp: batchSize_def)

declare users_from.simps [simp del]

text \<open>
  \<open>userSeeder(length)\<close>: the users table is emptied first. (The cascade of that
  delete into other tables is outside this model.)
\<close>

definition userSeeder ::
  "user_chance \<Rightarrow> string list \<Rightarrow> nat \<Rightarrow> user_row list \<Rightarrow> outcome \<times> seeding" where
  "userSeeder ch roleIds len table =
     users_from ch roleIds len 0 \<lparr>usersTable = [], generated_users = [], logged = []\<rparr>"

text \<open>The email of the user with index \<open>i\<close> of a run.\<close>

definition email_at :: "user_chance \<Rightarrow> nat \<Rightarrow> string" where
  "email_at ch i = decimal i @ faker_internet_email ch i"

definition starts_with_digit :: "string \<Rightarrow> bool" where
  "starts_with_digit e = (case e of [] \<Rightarrow> False | c # cs \<Rightarrow> is_digit c)"

section \<open>Example states and runs\<close>

definition example_runtime :: runtime where
  "example_runtime =
     \<lparr>new_Date = (\<lambda>k. 1700000000000 + k), randomUUID = (\<lambda>k. ''id-'' @ decimal k)\<rparr>"

definition example_db :: db where
  "example_db =
     \<lparr>departmentsTable =
        [\<lparr>d_id = ''d1'', d_name = ''Math'', d_slug = ''math'',
          d_createdAt = 1000, d_updatedAt = Some 1000\<rparr>,
         \<lparr>d_id = ''d2'', d_name = ''Physics'', d_slug = ''physics'',
          d_createdAt = 2000, d_updatedAt = Some 2000\<rparr>],
      coursesTable =
        [\<lparr>c_id = ''c1'', c_departmentId = ''d1'', c_name = Some ''Algebra'',
          c_slug = ''algebra'', c_description = None,
          c_createdAt = 3000, c_updatedAt = None\<rparr>],
      fieldsTable = [],
      lessonRostersTable = [],
      marks = [],
      sessionsTable = [],
      attendanceTable = [],
      coursesToAcademies = [],
      studentsToLessonRosters = [],
      userToDepartment =
        [\<lparr>m_userId = ''u1'', m_departmentId = ''d1'', m_role = LEADER\<rparr>,
         \<lparr>m_userId = ''u1'', m_departmentId = ''d1'', m_role = LECTURER\<rparr>,
         \<lparr>m_userId = ''u2'', m_departmentId = ''d2'', m_role = LECTURER\<rparr>]\<rparr>"

definition empty_db :: db where
  "empty_db =
     \<lparr>departmentsTable = [], coursesTable = [], fieldsTable = [], lessonRostersTable = [],
      marks = [], sessionsTable = [], attendanceTable = [], coursesToAcademies = [],
      studentsToLessonRosters = [], userToDepartment = []\<rparr>"

text \<open>The state after a first department "math" has been created, and a later request.\<close>

definition math_db :: db where
  "math_db =
     empty_db\<lparr>departmentsTable :=
       [\<lparr>d_id = ''id-0'', d_name = ''Math'', d_slug = ''math'',
         d_createdAt = 1700000000000, d_updatedAt = Some 1700000000001\<rparr>]\<rparr>"

definition later_runtime :: runtime where
  "later_runtime =
     \<lparr>new_Date = (\<lambda>k. 1700000060000 + k), randomUUID = (\<lambda>k. ''id-1'')\<rparr>"

text \<open>
  A run of the course seeder in which faker always answers "Books", the suffix drawn is
  always 5, and the clock does not advance between two readings.
\<close>

definition collision_chance :: chance where
  "collision_chance =
     \<lparr>faker_commerce_department = (\<lambda>k. ''Books''),
      Math_floor_random = (\<lambda>k n. if n = 1000 then 5 else 0),
      Date_now = (\<lambda>k. 1700000000000),
      faker_lorem_paragraph = (\<lambda>k. ''Lorem ipsum.''),
      course_randomUUID = (\<lambda>k. ''course-id-'' @ decimal k),
      course_defaultNow = 1700000000500\<rparr>"

text \<open>
  Two runs of the user seeder: one where the generated address of user 1 begins with a
  digit, one where every address is the same.
\<close>

definition clash_user_chance :: user_chance where
  "clash_user_chance =
     \<lparr>faker_person_fullName = (\<lambda>k. ''Jane Doe''),
      faker_internet_email = (\<lambda>k. if k = 1 then ''0x@example.com'' else ''x@example.com''),
      faker_date_recent = (\<lambda>k. 1700000000000),
      faker_internet_password = (\<lambda>k. ''secret''),
      faker_helpers_arrayElement = (\<lambda>k ids. case ids of [] \<Rightarrow> None | r # rs \<Rightarrow> Some r),
      faker_image_avatar = (\<lambda>k. ''avatar.png''),
      user_randomUUID = (\<lambda>k. ''user-id-'' @ decimal k)\<rparr>"

definition plain_user_chance :: user_chance where
  "plain_user_chance =
     \<lparr>faker_person_fullName = (\<lambda>k. ''Jane Doe''),
      faker_internet_email = (\<lambda>k. ''jane@example.com''),
      faker_date_recent = (\<lambda>k. 1700000000000),
      faker_internet_password = (\<lambda>k. ''secret''),
      faker_helpers_arrayElement = (\<lambda>k ids. case ids of [] \<Rightarrow> None | r # rs \<Rightarrow> Some r),
      faker_image_avatar = (\<lambda>k. ''avatar.png''),
      user_randomUUID = (\<lambda>k. ''user-id-'' @ decimal k)\<rparr>"

section \<open>The department handlers: properties\<close>

subsection \<open>Left joins and groups\<close>

lemma leftJoin_Nil: "leftJoin [] ys on = []"
  by (simp add: leftJoin_def)

lemma leftJoin_Cons:
  "leftJoin (x # xs) ys on =
     (case filter (on x) ys of [] \<Rightarrow> [(x, None)] | m # ms \<Rightarrow> map (\<lambda>y. (x, Some y)) (m # ms))
     @ leftJoin xs ys on"
  by (simp add: leftJoin_def)

lemma leftJoin_eq_Nil: "leftJoin xs ys on = [] \<longleftrightarrow> xs = []"
  by (cases xs) (auto simp: leftJoin_Nil leftJoin_Cons split: list.splits)

lemma fst_set_leftJoin: "fst ` set (leftJoin xs ys on) = set xs"
  by (induction xs) (auto simp: leftJoin_Nil leftJoin_Cons image_Un image_image split: list.splits)

lemma filter_leftJoin:
  "filter (\<lambda>j. P (fst j)) (leftJoin xs ys on) = leftJoin (filter P xs) ys on"
  by (induction xs) (auto simp: leftJoin_Nil leftJoin_Cons filter_empty_conv split: list.splits)

lemma hd_leftJoin: "xs \<noteq> [] \<Longrightarrow> fst (hd (leftJoin xs ys on)) = hd xs"
  by (cases xs) (auto simp: leftJoin_Cons split: list.splits)

lemma remdups_constant_prefix:
  "as \<noteq> [] \<Longrightarrow> set as = {v} \<Longrightarrow> remdups (as @ bs) = remdups (v # bs)"
proof (induction as)
  case Nil
  then show ?case by simp
next
  case (Cons a as)
  show ?case
  proof (cases "as = []")
    case True
    with Cons.prems show ?thesis by simp
  next
    case False
    have "a = v" using Cons.prems by auto
    have "set as \<subseteq> {v}" using Cons.prems by auto
    moreover have "set as \<noteq> {}" using False by simp
    ultimately have "set as = {v}" by (simp add: subset_singleton_iff)
    with Cons.IH False \<open>a = v\<close> show ?thesis by auto
  qed
qed

lemma remdups_map_leftJoin:
  "remdups (map (\<lambda>j. g (fst j)) (leftJoin xs ys on)) = remdups (map g xs)"
proof (induction xs)
  case Nil
  then show ?case by (simp add: leftJoin_Nil)
next
  case (Cons x xs)
  let ?b = "case filter (on x) ys of [] \<Rightarrow> [(x, None)] | m # ms \<Rightarrow> map (\<lambda>y. (x, Some y)) (m # ms)"
  have b: "map (\<lambda>j. g (fst j)) ?b \<noteq> []" "set (map (\<lambda>j. g (fst j)) ?b) = {g x}"
    by (auto split: list.splits)
  have "remdups (map (\<lambda>j. g (fst j)) (leftJoin (x # xs) ys on)) =
          remdups (map (\<lambda>j. g (fst j)) ?b @ map (\<lambda>j. g (fst j)) (leftJoin xs ys on))"
    by (simp add: leftJoin_Cons)
  also have "\<dots> = remdups (g x # map (\<lambda>j. g (fst j)) (leftJoin xs ys on))"
    by (rule remdups_constant_prefix [OF b])
  also have "\<dots> = remdups (map g (x # xs))"
  proof -
    have "set (map (\<lambda>j. g (fst j)) (leftJoin xs ys on)) = g ` (fst ` set (leftJoin xs ys on))"
      by (simp add: image_image)
    then have "set (map (\<lambda>j. g (fst j)) (leftJoin xs ys on)) = set (map g xs)"
      by (simp add: fst_set_leftJoin)
    then show ?thesis using Cons.IH by simp
  qed
  finally show ?case .
qed


lemma set_map_filter_fst:
  "set (List.map_filter (\<lambda>j. f (fst j)) L) = {y. \<exists>x \<in> fst ` set L. f x = Some y}"
proof -
  have "y \<in> set (List.map_filter (\<lambda>j. f (fst j)) L) \<longleftrightarrow> (\<exists>x \<in> fst ` set L. f x = Some y)"
    for y
    by (induction L) (auto simp: List.map_filter_simps split: option.splits)
  then show ?thesis by blast
qed

lemma distinct_count_leftJoin:
  "length (remdups (List.map_filter (\<lambda>j. f (fst j)) (leftJoin G ms on))) =
   length (remdups (List.map_filter (\<lambda>j. f (fst j)) (leftJoin G ms' on')))"
proof -
  have "set (List.map_filter (\<lambda>j. f (fst j)) (leftJoin G ms on)) =
        set (List.map_filter (\<lambda>j. f (fst j)) (leftJoin G ms' on'))"
    by (simp only: set_map_filter_fst fst_set_leftJoin)
  then show ?thesis
    by (simp only: length_remdups_card_conv)
qed

lemma select_group_leftJoin:
  "select_group s' (leftJoin G ms' on') = map (recount s') (select_group s (leftJoin G ms on))"
proof (cases "G = []")
  case True
  then show ?thesis by (simp add: leftJoin_Nil select_group_def)
next
  case False
  obtain r rs where a: "leftJoin G ms on = r # rs"
    using False leftJoin_eq_Nil [of G ms on] by (cases "leftJoin G ms on") auto
  obtain r' rs' where b: "leftJoin G ms' on' = r' # rs'"
    using False leftJoin_eq_Nil [of G ms' on'] by (cases "leftJoin G ms' on'") auto
  have "fst r = hd G" using hd_leftJoin [OF False, of ms on] a by simp
  moreover have "fst r' = hd G" using hd_leftJoin [OF False, of ms' on'] b by simp
  ultimately have h: "fst r' = fst r" by simp
  have c: "length (remdups (List.map_filter (\<lambda>j. map_option c_id (snd (fst j))) (r' # rs'))) =
           length (remdups (List.map_filter (\<lambda>j. map_option c_id (snd (fst j))) (r # rs)))"
    using distinct_count_leftJoin [of "\<lambda>x. map_option c_id (snd x)" G ms' on' ms on] a b
    by simp
  show ?thesis
    unfolding a b select_group_def recount_def
    by (simp only: list.case h c) simp
qed

lemma departments_get_memberships:
  "departments_get (s\<lparr>userToDepartment := ms'\<rparr>) =
     map (recount (s\<lparr>userToDepartment := ms'\<rparr>)) (departments_get s)"
proof -
  let ?s' = "s\<lparr>userToDepartment := ms'\<rparr>"
  let ?J = "leftJoin (departmentsTable s) (coursesTable s) (\<lambda>d c. d_id d = c_departmentId c)"
  let ?on = "\<lambda>dc m. d_id (fst dc) = m_departmentId m"
  have j: "joined_rows s = leftJoin ?J (userToDepartment s) ?on"
    and j': "joined_rows ?s' = leftJoin ?J ms' ?on"
    by (simp_all add: joined_rows_def)
  have keys: "remdups (map (\<lambda>j. d_id (fst (fst j))) (joined_rows ?s')) =
              remdups (map (\<lambda>j. d_id (fst (fst j))) (joined_rows s))"
    unfolding j j'
    by (simp add: remdups_map_leftJoin [of "\<lambda>dc. d_id (fst dc)"])
  have grp: "select_group ?s' (filter (\<lambda>j. d_id (fst (fst j)) = k) (joined_rows ?s')) =
             map (recount ?s') (select_group s (filter (\<lambda>j. d_id (fst (fst j)) = k) (joined_rows s)))"
    for k
    unfolding j j'
    by (simp add: filter_leftJoin [of "\<lambda>dc. d_id (fst dc) = k"] select_group_leftJoin [of ?s' _ ms' ?on s])
  show ?thesis
    unfolding departments_get_def keys
    by (simp only: grp map_concat map_map comp_def)
qed

subsection \<open>Listing after a change of memberships\<close>

lemma departments_get_counts:
  "r \<in> set (departments_get s) \<Longrightarrow> recount s r = r"
  by (auto simp: departments_get_def select_group_def recount_def split: list.splits)

lemma count_role_snoc:
  "count_role (s\<lparr>userToDepartment := userToDepartment s @ [m]\<rparr>) r k =
     count_role s r k + (if m_role m = r \<and> m_departmentId m = k then 1 else 0)"
  by (simp add: count_role_def)

text \<open>
  Claim C2. When the add-member operation succeeds (status 200) for department \<open>D\<close>
  with the role "leader", the listing of the new state is the listing of the old one
  with \<open>leadersCount\<close> one higher in the row of \<open>D\<close>: \<open>lecturersCount\<close> and everything
  else in that row, and every other row, are as before.
\<close>

theorem add_leader_then_list:
  assumes "departments_members_post admits b s = ((200, Data), s')"
    and "ab_role b = Some LEADER"
  shows "departments_get s' =
           map (\<lambda>r. if row_id r = ab_departmentId b
                     then r\<lparr>leadersCount := leadersCount r + 1\<rparr> else r)
             (departments_get s)"
proof -
  let ?m = "\<lparr>m_userId = ab_userId b, m_departmentId = ab_departmentId b, m_role = LEADER\<rparr>"
  have s': "s' = s\<lparr>userToDepartment := userToDepartment s @ [?m]\<rparr>"
    using assms
    by (auto simp: departments_members_post_def assignUserToDepartmentSchema_def Let_def
        split: sum.splits if_splits)
  have "departments_get s' = map (recount s') (departments_get s)"
    unfolding s' by (rule departments_get_memberships)
  also have "\<dots> = map (\<lambda>r. if row_id r = ab_departmentId b
                     then r\<lparr>leadersCount := leadersCount r + 1\<rparr> else r)
             (departments_get s)"
  proof (rule map_cong [OF refl])
    fix r assume "r \<in> set (departments_get s)"
    then have r: "recount s r = r" by (rule departments_get_counts)
    have "recount s' r = (recount s r)\<lparr>leadersCount :=
             leadersCount (recount s r) + (if row_id r = ab_departmentId b then 1 else 0)\<rparr>"
      unfolding s' by (simp add: recount_def count_role_snoc)
    then show "recount s' r = (if row_id r = ab_departmentId b
                     then r\<lparr>leadersCount := leadersCount r + 1\<rparr> else r)"
      by (simp add: r)
  qed
  finally show ?thesis .
qed

lemma departments_get_example:
  "departments_get example_db =
     [\<lparr>row_id = ''d1'', row_name = ''Math'', row_slug = ''math'', row_createdAt = 1000,
       row_updatedAt = Some 1000, leadersCount = 1, lecturersCount = 1, coursesCount = 1\<rparr>,
      \<lparr>row_id = ''d2'', row_name = ''Physics'', row_slug = ''physics'', row_createdAt = 2000,
       row_updatedAt = Some 2000, leadersCount = 0, lecturersCount = 1, coursesCount = 0\<rparr>]"
  by (simp add: departments_get_def joined_rows_def leftJoin_def example_db_def
      select_group_def count_role_def List.map_filter_simps)

theorem add_leader_then_list_witness:
  "departments_members_post (\<lambda>s m. True)
       \<lparr>ab_userId = ''u2'', ab_departmentId = ''d1'', ab_role = Some LEADER\<rparr> example_db
     = ((200, Data),
        example_db\<lparr>userToDepartment := userToDepartment example_db @
          [\<lparr>m_userId = ''u2'', m_departmentId = ''d1'', m_role = LEADER\<rparr>]\<rparr>)
   \<and> map leadersCount (departments_get example_db) = [1, 0]
   \<and> map leadersCount (departments_get
        (example_db\<lparr>userToDepartment := userToDepartment example_db @
          [\<lparr>m_userId = ''u2'', m_departmentId = ''d1'', m_role = LEADER\<rparr>]\<rparr>)) = [2, 0]
   \<and> map lecturersCount (departments_get
        (example_db\<lparr>userToDepartment := userToDepartment example_db @
          [\<lparr>m_userId = ''u2'', m_departmentId = ''d1'', m_role = LEADER\<rparr>]\<rparr>)) = [1, 1]"
proof -
  have h: "departments_members_post (\<lambda>s m. True)
       \<lparr>ab_userId = ''u2'', ab_departmentId = ''d1'', ab_role = Some LEADER\<rparr> example_db
     = ((200, Data),
        example_db\<lparr>userToDepartment := userToDepartment example_db @
          [\<lparr>m_userId = ''u2'', m_departmentId = ''d1'', m_role = LEADER\<rparr>]\<rparr>)"
    by (simp add: departments_members_post_def assignUserToDepartmentSchema_def)
  show ?thesis
    using h add_leader_then_list [OF h] by (simp add: departments_get_example)
qed

subsection \<open>Update by slug\<close>

lemma length_capitalizeFirstLetter:
  assumes "\<And>c. length (up [c]) \<le> 3" and "str \<noteq> []"
  shows "length (capitalizeFirstLetter up str) \<le> length str + 2"
proof -
  obtain c cs where str: "str = c # cs"
    using assms(2) by (cases str) auto
  have "length (capitalizeFirstLetter up str) = length (up [c]) + length cs"
    by (simp add: capitalizeFirstLetter_def str)
  also have "\<dots> \<le> 3 + length cs"
    using assms(1) [of c] by simp
  finally show ?thesis by (simp add: str)
qed

text \<open>
  Claim C3. For a valid name (2 to 100 characters), the update-by-slug operation
  answers 200 and rewrites exactly the department rows with the given slug: their name
  becomes the capitalized input name (the first code unit upper-cased by the
  runtime's \<open>toUpperCase\<close>, the rest as given), \<open>createdAt\<close> and \<open>updatedAt\<close> become
  the two readings of the clock taken by the handler, and their id and slug stay.
  Every other department row and every other table is unchanged.

  The statement is for every function \<open>up\<close> in the place of \<open>toUpperCase\<close> that makes
  at most three code units of one, as Unicode's case tables do (the longest
  upper-case form of a single character has three): the capitalized name then fits
  the \<open>varchar(255)\<close> column.
\<close>

theorem update_by_slug_effect:
  assumes "2 \<le> length n" and "length n \<le> 100"
    and "\<And>c. length (up [c]) \<le> 3"
  shows "departments_put up rt slug \<lparr>cb_name = Some n\<rparr> s =
           ((200, Data),
            s\<lparr>departmentsTable :=
                map (\<lambda>d. if d_slug d = slug
                          then d\<lparr>d_name := capitalizeFirstLetter up n,
                                 d_createdAt := new_Date rt 0,
                                 d_updatedAt := Some (new_Date rt 1)\<rparr>
                          else d)
                  (departmentsTable s)\<rparr>)"
proof -
  have v: "createDepartmentSchema \<lparr>cb_name = Some n\<rparr> = Inr n"
    using assms(1,2) by (simp add: createDepartmentSchema_def)
  have "n \<noteq> []" using assms(1) by auto
  then have "length (capitalizeFirstLetter up n) \<le> length n + 2"
    using assms(3) by (rule length_capitalizeFirstLetter [rotated])
  then have "length (capitalizeFirstLetter up n) \<le> 255"
    using assms(2) by simp
  then show ?thesis
    by (simp add: departments_put_def v update_department_by_slug_def)
qed

theorem update_by_slug_effect_witness:
  "2 \<le> length ''mathematics'' \<and> length ''mathematics'' \<le> 100
   \<and> (\<forall>c. length (ascii_toUpperCase [c]) \<le> 3)
   \<and> departments_put ascii_toUpperCase example_runtime ''math''
         \<lparr>cb_name = Some ''mathematics''\<rparr> example_db =
       ((200, Data),
        example_db\<lparr>departmentsTable :=
          [\<lparr>d_id = ''d1'', d_name = ''Mathematics'', d_slug = ''math'',
            d_createdAt = 1700000000000, d_updatedAt = Some 1700000000001\<rparr>,
           \<lparr>d_id = ''d2'', d_name = ''Physics'', d_slug = ''physics'',
            d_createdAt = 2000, d_updatedAt = Some 2000\<rparr>]\<rparr>)"
proof -
  have h: "length (ascii_toUpperCase [c]) \<le> 3" for c
    by (simp add: ascii_toUpperCase_def)
  show ?thesis
    using h update_by_slug_effect [where n = "''mathematics''" and up = ascii_toUpperCase
        and rt = example_runtime and slug = "''math''" and s = example_db, OF _ _ h]
    by (simp add: example_db_def example_runtime_def capitalizeFirstLetter_def
        ascii_toUpperCase_def toUpperCase_char_def lower_letters_def upper_letters_def)
qed

subsection \<open>Create with an invalid name\<close>

text \<open>
  Claim C7. A create request whose name is shorter than 2 or longer than 100
  characters is answered with status 400 and an error on the field \<open>name\<close>, and the
  stored state is the one before the request: no department row is persisted.
\<close>

theorem create_invalid_name_rejected:
  assumes "length n < 2 \<or> length n > 100"
  shows "departments_post sl up rt \<lparr>cb_name = Some n\<rparr> s =
           Some ((400, Error_format [(''name'',
                   [if length n < 2 then ''Name must be at least 2 characters''
                    else ''Name is too long''])]), s)"
  using assms by (auto simp: departments_post_def createDepartmentSchema_def)

theorem create_invalid_name_rejected_witness:
  "length ''M'' < 2
   \<and> departments_post slugify ascii_toUpperCase example_runtime
         \<lparr>cb_name = Some ''M''\<rparr> example_db =
       Some ((400, Error_format [(''name'', [''Name must be at least 2 characters''])]),
             example_db)"
  using create_invalid_name_rejected [where n = "''M''" and sl = slugify
      and up = ascii_toUpperCase and rt = example_runtime and s = example_db]
  by simp

subsection \<open>Removing members\<close>

lemma foldl_delete_membership:
  "foldl (\<lambda>s' i. delete_membership i s') s idObject =
     s\<lparr>userToDepartment :=
         filter (\<lambda>m. (m_userId m, m_departmentId m)
                       \<notin> set (map (\<lambda>i. (io_userId i, io_departmentId i)) idObject))
           (userToDepartment s)\<rparr>"
proof (induction idObject arbitrary: s)
  case Nil
  then show ?case by simp
next
  case (Cons i idObject)
  have "foldl (\<lambda>s' i. delete_membership i s') (delete_membership i s) idObject =
          (delete_membership i s)\<lparr>userToDepartment :=
             filter (\<lambda>m. (m_userId m, m_departmentId m)
                       \<notin> set (map (\<lambda>i. (io_userId i, io_departmentId i)) idObject))
               (userToDepartment (delete_membership i s))\<rparr>"
    by (rule Cons.IH)
  also have "\<dots> = s\<lparr>userToDepartment :=
         filter (\<lambda>m. (m_userId m, m_departmentId m)
                       \<notin> set (map (\<lambda>i. (io_userId i, io_departmentId i)) (i # idObject)))
           (userToDepartment s)\<rparr>"
    by (auto simp: delete_membership_def intro!: filter_cong)
  finally show ?case by simp
qed

text \<open>
  Claim C10. A remove-members request answers 200 and leaves, of the membership
  table, exactly the rows whose (userId, departmentId) pair is not listed in the
  request, in their order. A row with a listed pair is deleted whatever its role and
  however many rows share the pair; every other table is unchanged.
\<close>

theorem remove_members_effect:
  "departments_members_patch idObject s =
     ((200, Data),
      s\<lparr>userToDepartment :=
          filter (\<lambda>m. (m_userId m, m_departmentId m)
                        \<notin> set (map (\<lambda>i. (io_userId i, io_departmentId i)) idObject))
            (userToDepartment s)\<rparr>)"
  by (simp add: departments_members_patch_def foldl_delete_membership)

theorem remove_members_effect_witness:
  "departments_members_patch [\<lparr>io_userId = ''u1'', io_departmentId = ''d1''\<rparr>] example_db =
     ((200, Data),
      example_db\<lparr>userToDepartment :=
        [\<lparr>m_userId = ''u2'', m_departmentId = ''d2'', m_role = LECTURER\<rparr>]\<rparr>)"
  using remove_members_effect [of "[\<lparr>io_userId = ''u1'', io_departmentId = ''d1''\<rparr>]" example_db]
  by (simp add: example_db_def)

section \<open>Strings and numbers: properties\<close>

lemma digit_inj: "d < 10 \<Longrightarrow> e < 10 \<Longrightarrow> digit d = digit e \<Longrightarrow> d = e"
  unfolding digit_def
  by (subst (asm) nth_eq_iff_index_eq) simp_all

lemma digit_is_digit: "d < 10 \<Longrightarrow> is_digit (digit d)"
  unfolding digit_def is_digit_def by (rule nth_mem) simp

lemma decimal_not_Nil: "decimal n \<noteq> []"
  by (subst decimal.simps) simp

lemma decimal_digits: "c \<in> set (decimal n) \<Longrightarrow> is_digit c"
proof (induction n arbitrary: c rule: decimal.induct)
  case (1 n)
  show ?case
  proof (cases "n < 10")
    case True
    with "1.prems" show ?thesis
      by (subst (asm) decimal.simps) (simp add: digit_is_digit)
  next
    case False
    with "1.prems" have "c \<in> set (decimal (n div 10)) \<or> c = digit (n mod 10)"
      by (subst (asm) decimal.simps) auto
    with "1.IH" False show ?thesis
      by (auto simp: digit_is_digit)
  qed
qed

lemma decimal_inj: "decimal m = decimal n \<Longrightarrow> m = n"
proof (induction m arbitrary: n rule: decimal.induct)
  case (1 m)
  show ?case
  proof (cases "m < 10")
    case m: True
    show ?thesis
    proof (cases "n < 10")
      case True
      with m "1.prems" show ?thesis
        by (simp add: decimal.simps [of m] decimal.simps [of n] digit_inj)
    next
      case False
      with m "1.prems" show ?thesis
        by (simp add: decimal.simps [of m] decimal.simps [of n] decimal_not_Nil decimal_not_Nil [symmetric])
    qed
  next
    case m: False
    show ?thesis
    proof (cases "n < 10")
      case True
      with m "1.prems" show ?thesis
        by (simp add: decimal.simps [of m] decimal.simps [of n] decimal_not_Nil decimal_not_Nil [symmetric])
    next
      case False
      with m "1.prems" have a: "decimal (m div 10) = decimal (n div 10)"
        and b: "digit (m mod 10) = digit (n mod 10)"
        by (simp_all add: decimal.simps [of m] decimal.simps [of n])
      from "1.IH" [OF m a] have "m div 10 = n div 10" .
      moreover from b have "m mod 10 = n mod 10"
        by (rule digit_inj [rotated 2]) simp_all
      ultimately show ?thesis
        by (metis div_mult_mod_eq)
    qed
  qed
qed

lemmas string_eval = decimal.simps digit_def slugify_def slug_words.simps toLowerCase_def
  toLowerCase_char_def upper_letters_def lower_letters_def is_slug_char_def

lemma slugify_Books: "slugify ''Books'' = ''books''"
  by (simp add: string_eval)

section \<open>The slug utility: properties\<close>

lemma slug_words_Nil: "slug_words [] = []"
  by (simp add: slug_words.simps)

lemma slug_words_skip: "\<not> is_slug_char c \<Longrightarrow> slug_words (c # cs) = slug_words cs"
  by (simp add: slug_words.simps [of "c # cs"] slug_words.simps [of cs])

lemma slug_words_word:
  "is_slug_char c \<Longrightarrow>
     slug_words (c # cs) = takeWhile is_slug_char (c # cs) # slug_words (dropWhile is_slug_char (c # cs))"
  by (simp add: slug_words.simps [of "c # cs"])

lemma slug_words_are_words: "list_all slug_word (slug_words s)"
proof (induction s rule: slug_words.induct)
  case (1 s)
  show ?case
  proof (cases "dropWhile (\<lambda>c. \<not> is_slug_char c) s")
    case Nil
    have "slug_words s = []"
      by (subst slug_words.simps) (simp only: Nil list.case)
    then show ?thesis by simp
  next
    case (Cons c cs)
    have c: "is_slug_char c"
      using Cons hd_dropWhile [of "\<lambda>c. \<not> is_slug_char c" s] by auto
    have "slug_word (takeWhile is_slug_char (c # cs))"
      using c by (auto simp: slug_word_def list_all_iff dest: set_takeWhileD)
    moreover have "list_all slug_word (slug_words (dropWhile is_slug_char (c # cs)))"
      using "1.IH" [OF Cons] .
    moreover have "slug_words s =
        takeWhile is_slug_char (c # cs) # slug_words (dropWhile is_slug_char (c # cs))"
      by (subst slug_words.simps) (simp only: Cons list.case)
    ultimately show ?thesis
      by simp
  qed
qed

lemma hyphen_not_slug_char: "\<not> is_slug_char CHR ''-''"
  by (simp add: is_slug_char_def lower_letters_def)

lemma slug_words_one: "slug_word w \<Longrightarrow> slug_words (w @ CHR ''-'' # rest) = w # slug_words rest"
proof -
  assume w: "slug_word w"
  then obtain c cs where cs: "w = c # cs" and c: "is_slug_char c"
    by (cases w) (auto simp: slug_word_def)
  have all: "\<And>x. x \<in> set w \<Longrightarrow> is_slug_char x"
    using w by (simp add: slug_word_def list_all_iff)
  have t: "takeWhile is_slug_char (w @ CHR ''-'' # rest) = w"
    using all by (simp add: takeWhile_append2 hyphen_not_slug_char)
  have d: "dropWhile is_slug_char (w @ CHR ''-'' # rest) = CHR ''-'' # rest"
    using all by (simp add: dropWhile_append2 hyphen_not_slug_char)
  have "slug_words (w @ CHR ''-'' # rest) =
          takeWhile is_slug_char (w @ CHR ''-'' # rest)
          # slug_words (dropWhile is_slug_char (w @ CHR ''-'' # rest))"
    using slug_words_word [OF c, of "cs @ CHR ''-'' # rest"] by (simp add: cs)
  then show ?thesis
    by (simp only: t d slug_words_skip [OF hyphen_not_slug_char])
qed

lemma slug_words_last: "slug_word w \<Longrightarrow> slug_words w = [w]"
proof -
  assume w: "slug_word w"
  then obtain c cs where cs: "w = c # cs" and c: "is_slug_char c"
    by (cases w) (auto simp: slug_word_def)
  have all: "\<And>x. x \<in> set w \<Longrightarrow> is_slug_char x"
    using w by (simp add: slug_word_def list_all_iff)
  have "takeWhile is_slug_char w = w" and "dropWhile is_slug_char w = []"
    using all by simp_all
  then show ?thesis
    using slug_words_word [OF c, of cs] by (simp add: cs slug_words_Nil)
qed

lemma slug_words_hyphenate: "list_all slug_word ws \<Longrightarrow> slug_words (hyphenate ws) = ws"
proof (induction ws rule: hyphenate.induct)
  case 1
  then show ?case by (simp add: slug_words_Nil)
next
  case (2 w)
  then show ?case by (simp add: slug_words_last)
next
  case (3 w v ws)
  then show ?case by (simp add: slug_words_one)
qed

lemma toLowerCase_char_fixed: "c \<notin> set upper_letters \<Longrightarrow> toLowerCase_char c = c"
proof -
  assume "c \<notin> set upper_letters"
  then have "map_of (zip upper_letters lower_letters) c = None"
    by (simp add: map_of_eq_None_iff upper_letters_def lower_letters_def)
  then show ?thesis by (simp add: toLowerCase_char_def)
qed

lemma slug_char_not_upper: "is_slug_char c \<Longrightarrow> c \<notin> set upper_letters"
  by (auto simp: is_slug_char_def lower_letters_def upper_letters_def)

lemma set_hyphenate: "set (hyphenate ws) \<subseteq> \<Union> (set ` set ws) \<union> {CHR ''-''}"
  by (induction ws rule: hyphenate.induct) auto

lemma toLowerCase_hyphenate:
  assumes "list_all slug_word ws"
  shows "toLowerCase (hyphenate ws) = hyphenate ws"
proof -
  have "toLowerCase_char c = c" if "c \<in> set (hyphenate ws)" for c
  proof -
    from that set_hyphenate [of ws] have "c = CHR ''-'' \<or> (\<exists>w \<in> set ws. c \<in> set w)"
      by auto
    then have "c \<notin> set upper_letters"
    proof
      assume "c = CHR ''-''"
      then show ?thesis by (simp add: upper_letters_def)
    next
      assume "\<exists>w \<in> set ws. c \<in> set w"
      with assms have "is_slug_char c"
        by (auto simp: slug_word_def list_all_iff)
      then show ?thesis by (rule slug_char_not_upper)
    qed
    then show ?thesis by (rule toLowerCase_char_fixed)
  qed
  then show ?thesis
    by (simp add: toLowerCase_def map_idI)
qed

text \<open>
  Claim C8. \<open>slugify\<close> is idempotent: applying it to one of its results gives that
  result back. As a function of its argument alone it has no hidden state, so equal
  inputs give equal outputs.
\<close>

theorem slugify_idempotent: "slugify (slugify x) = slugify x"
proof -
  have w: "list_all slug_word (slug_words (toLowerCase x))"
    by (rule slug_words_are_words)
  show ?thesis
    by (simp add: slugify_def toLowerCase_hyphenate [OF w] slug_words_hyphenate [OF w])
qed

theorem slugify_idempotent_witness:
  "slugify ''Math & Science'' = ''math-science'' \<and> slugify ''math-science'' = ''math-science''"
proof -
  have "slugify ''Math & Science'' = ''math-science''"
    by (simp add: string_eval)
  then show ?thesis
    using slugify_idempotent [of "''Math & Science''"] by simp
qed

section \<open>Create: properties\<close>

text \<open>
  The loop of the create handler ends, so the handler always answers. What it inserts
  is \<open>slugify(name)\<close>: a name whose slug is stored already is answered with 500, and
  the slugs stored stay pairwise distinct.
\<close>

lemma find_slug_iff:
  "find (\<lambda>department. d_slug department = slug) rows \<noteq> None \<longleftrightarrow> slug \<in> set (map d_slug rows)"
  by (auto simp: find_None_iff)

lemma candidate_inj: "inj (\<lambda>k. baseSlug @ ''-'' @ decimal k)"
  by (rule injI) (simp add: decimal_inj)

lemma candidates_bounded:
  "\<exists>b. \<forall>k\<ge>b. baseSlug @ ''-'' @ decimal k \<notin> set (map d_slug rows)"
proof -
  let ?c = "\<lambda>k. baseSlug @ ''-'' @ decimal k"
  have "finite (?c -` set (map d_slug rows))"
    by (rule finite_vimageI [OF _ candidate_inj]) simp
  then obtain b where "\<forall>k \<in> ?c -` set (map d_slug rows). k < b"
    using finite_nat_set_iff_bounded by blast
  then have "\<forall>k\<ge>b. ?c k \<notin> set (map d_slug rows)"
    by (metis not_le vimageI)
  then show ?thesis ..
qed

lemma slug_search_terminates: "\<exists>r. slug_search rows baseSlug slug counter = Some r"
proof -
  obtain b where b: "\<forall>k\<ge>b. baseSlug @ ''-'' @ decimal k \<notin> set (map d_slug rows)"
    using candidates_bounded by blast
  show ?thesis
  proof (induction n \<equiv> "Suc b - counter" arbitrary: slug counter rule: less_induct)
    case less
    show ?case
    proof (cases "slug \<in> set (map d_slug rows)")
      case False
      then show ?thesis
        by (subst slug_search.simps) (simp only: find_slug_iff if_False, blast)
    next
      case True
      have step: "slug_search rows baseSlug slug counter =
                  slug_search rows baseSlug (baseSlug @ ''-'' @ decimal counter) (counter + 1)"
        using True by (subst slug_search.simps) (simp only: find_slug_iff if_True)
      show ?thesis
      proof (cases "b \<le> counter")
        case True
        with b have "baseSlug @ ''-'' @ decimal counter \<notin> set (map d_slug rows)" by blast
        then have "slug_search rows baseSlug (baseSlug @ ''-'' @ decimal counter) (counter + 1) =
                     Some (baseSlug @ ''-'' @ decimal counter)"
          by (subst slug_search.simps) (simp only: find_slug_iff if_False)
        with step show ?thesis by simp
      next
        case False
        then have "Suc b - (counter + 1) < Suc b - counter" by simp
        from less [OF this] step show ?thesis by simp
      qed
    qed
  qed
qed

lemma create_repeated_slug_rejected:
  assumes "2 \<le> length n" and "length n \<le> 100"
    and "sl n \<in> set (map d_slug (departmentsTable s))"
  shows "departments_post sl up rt \<lparr>cb_name = Some n\<rparr> s =
           Some ((500, Error_message ''Internal Server Error''), s)"
proof -
  have v: "createDepartmentSchema \<lparr>cb_name = Some n\<rparr> = Inr n"
    using assms by (simp add: createDepartmentSchema_def)
  obtain r where "slug_search (departmentsTable s) (sl n) (sl n) 1 = Some r"
    using slug_search_terminates by blast
  then show ?thesis
    using assms(3) by (simp add: departments_post_def v insert_department_def)
qed

lemma create_always_answers: "\<exists>r s'. departments_post sl up rt b s = Some (r, s')"
proof (cases "createDepartmentSchema b")
  case (Inl e)
  then show ?thesis by (simp add: departments_post_def)
next
  case (Inr n)
  obtain r where "slug_search (departmentsTable s) (sl n) (sl n) 1 = Some r"
    using slug_search_terminates by blast
  then show ?thesis
    by (cases "insert_department
                 \<lparr>d_id = randomUUID rt 0, d_name = capitalizeFirstLetter up n, d_slug = sl n,
                  d_createdAt = new_Date rt 0, d_updatedAt = Some (new_Date rt 1)\<rparr> s")
      (simp_all add: departments_post_def Inr)
qed

lemma create_keeps_slugs_distinct:
  assumes "distinct (map d_slug (departmentsTable s))"
    and "departments_post sl up rt b s = Some (r, s')"
  shows "distinct (map d_slug (departmentsTable s'))"
  using assms
  by (auto simp: departments_post_def insert_department_def
      split: sum.splits option.splits if_splits)

text \<open>
  Claim C1, on the code. A first create of "math" on an empty table stores the slug
  \<open>math\<close>. For a second create of the same name the loop does arrive at the free
  candidate \<open>math-1\<close>, but the insert is given \<open>slugify(name)\<close> again, not the
  candidate: the unique slug column rejects the row, the handler answers 500 and the
  table still holds the first department only.
\<close>

theorem create_same_name_twice:
  "departments_post slugify ascii_toUpperCase example_runtime
       \<lparr>cb_name = Some ''math''\<rparr> empty_db =
     Some ((201, Data), math_db)
   \<and> slug_search (departmentsTable math_db) ''math'' ''math'' 1 = Some ''math-1''
   \<and> departments_post slugify ascii_toUpperCase later_runtime
         \<lparr>cb_name = Some ''math''\<rparr> math_db =
       Some ((500, Error_message ''Internal Server Error''), math_db)"
proof -
  have sl: "slugify ''math'' = ''math''"
    by (simp add: string_eval)
  have v: "createDepartmentSchema \<lparr>cb_name = Some ''math''\<rparr> = Inr ''math''"
    by (simp add: createDepartmentSchema_def)
  have cap: "capitalizeFirstLetter ascii_toUpperCase ''math'' = ''Math''"
    by (simp add: capitalizeFirstLetter_def ascii_toUpperCase_def toUpperCase_char_def
        lower_letters_def upper_letters_def)
  have s1: "slug_search (departmentsTable math_db) ''math'' ''math'' 1 = Some ''math-1''"
    by (simp add: slug_search.simps math_db_def decimal.simps digit_def)
  have first: "departments_post slugify ascii_toUpperCase example_runtime
       \<lparr>cb_name = Some ''math''\<rparr> empty_db =
     Some ((201, Data), math_db)"
    by (simp add: departments_post_def v sl cap insert_department_def slug_search.simps
        empty_db_def math_db_def example_runtime_def decimal.simps digit_def)
  have second: "departments_post slugify ascii_toUpperCase later_runtime
         \<lparr>cb_name = Some ''math''\<rparr> math_db =
       Some ((500, Error_message ''Internal Server Error''), math_db)"
    by (simp add: departments_post_def v sl cap insert_department_def slug_search.simps
        math_db_def later_runtime_def decimal.simps digit_def)
  from first s1 second show ?thesis by simp
qed

section \<open>generateUniqueSlug: properties\<close>

lemma attempts_from_exhausted:
  assumes "\<And>i. attempts + i < maxAttempts \<Longrightarrow> candidates_taken sl ch S k i"
  shows "attempts_from sl ch attempts S k =
           (fallback ch k, insert (g_slug (fallback ch k)) S,
            k\<lparr>names_drawn := names_drawn k + (maxAttempts - attempts),
              randoms_drawn := randoms_drawn k + (maxAttempts - attempts),
              clocks_read := clocks_read k + 1\<rparr>)"
  using assms
proof (induction n \<equiv> "maxAttempts - attempts" arbitrary: attempts k)
  case 0
  then have "\<not> attempts < maxAttempts" by simp
  then show ?case
    using 0 by (simp add: attempts_from.simps [of sl ch attempts S k] fallback_def Let_def)
next
  case (Suc n)
  then have lt: "attempts < maxAttempts" by simp
  let ?k2 = "k\<lparr>names_drawn := names_drawn k + 1, randoms_drawn := randoms_drawn k + 1\<rparr>"
  have here: "candidates_taken sl ch S k 0"
    using Suc.prems [of 0] lt by simp
  have step: "attempts_from sl ch attempts S k = attempts_from sl ch (attempts + 1) S ?k2"
    using lt here
    by (simp add: attempts_from.simps [of sl ch attempts S k] candidates_taken_def Let_def)
  have n: "n = maxAttempts - (attempts + 1)" using Suc.hyps(2) by simp
  have rest: "candidates_taken sl ch S ?k2 i" if "attempts + 1 + i < maxAttempts" for i
    using Suc.prems [of "Suc i"] that by (simp add: candidates_taken_def)
  have "attempts_from sl ch (attempts + 1) S ?k2 =
          (fallback ch ?k2, insert (g_slug (fallback ch ?k2)) S,
           ?k2\<lparr>names_drawn := names_drawn ?k2 + (maxAttempts - (attempts + 1)),
              randoms_drawn := randoms_drawn ?k2 + (maxAttempts - (attempts + 1)),
              clocks_read := clocks_read ?k2 + 1\<rparr>)"
    by (rule Suc.hyps(1) [OF n rest])
  then show ?case
    using lt by (simp add: step fallback_def)
qed

lemma attempts_from_names_drawn:
  "names_drawn (snd (snd (attempts_from sl ch attempts S k)))
     \<le> names_drawn k + (maxAttempts - attempts)"
proof (induction n \<equiv> "maxAttempts - attempts" arbitrary: attempts k)
  case 0
  then show ?case
    by (simp add: attempts_from.simps [of sl ch attempts S k] Let_def)
next
  case (Suc n)
  then have lt: "attempts < maxAttempts" by simp
  let ?k2 = "k\<lparr>names_drawn := names_drawn k + 1, randoms_drawn := randoms_drawn k + 1\<rparr>"
  have n: "n = maxAttempts - (attempts + 1)" using Suc.hyps(2) by simp
  have "names_drawn (snd (snd (attempts_from sl ch (attempts + 1) S ?k2)))
          \<le> names_drawn ?k2 + (maxAttempts - (attempts + 1))"
    by (rule Suc.hyps(1) [OF n])
  then show ?case
    using lt by (auto simp add: attempts_from.simps [of sl ch attempts S k] Let_def)
qed

text \<open>
  Claim C9. \<open>generateUniqueSlug\<close> returns for every set of existing slugs (the model
  is a total function, by the termination proof of \<open>attempts_from\<close>). It makes at most
  100 attempts, one call of \<open>faker.commerce.department()\<close> each; and when in each of
  the 100 attempts both candidates are in the set, it returns the name and slug made
  from the reading of \<open>Date.now()\<close>, and adds that slug to the set.
\<close>

theorem generateUniqueSlug_bounded:
  "names_drawn (snd (snd (generateUniqueSlug sl ch S k))) \<le> names_drawn k + 100
   \<and> ((\<forall>i<100. candidates_taken sl ch S k i) \<longrightarrow>
        generateUniqueSlug sl ch S k =
          (\<lparr>g_slug = ''course-'' @ decimal (Date_now ch (clocks_read k)),
            g_name = ''Course '' @ decimal (Date_now ch (clocks_read k))\<rparr>,
           insert (''course-'' @ decimal (Date_now ch (clocks_read k))) S,
           k\<lparr>names_drawn := names_drawn k + 100,
             randoms_drawn := randoms_drawn k + 100,
             clocks_read := clocks_read k + 1\<rparr>))"
proof
  show "names_drawn (snd (snd (generateUniqueSlug sl ch S k))) \<le> names_drawn k + 100"
    using attempts_from_names_drawn [of sl ch 0 S k]
    by (simp add: generateUniqueSlug_def maxAttempts_def)
next
  show "(\<forall>i<100. candidates_taken sl ch S k i) \<longrightarrow>
        generateUniqueSlug sl ch S k =
          (\<lparr>g_slug = ''course-'' @ decimal (Date_now ch (clocks_read k)),
            g_name = ''Course '' @ decimal (Date_now ch (clocks_read k))\<rparr>,
           insert (''course-'' @ decimal (Date_now ch (clocks_read k))) S,
           k\<lparr>names_drawn := names_drawn k + 100,
             randoms_drawn := randoms_drawn k + 100,
             clocks_read := clocks_read k + 1\<rparr>)"
  proof
    assume a: "\<forall>i<100. candidates_taken sl ch S k i"
    have "attempts_from sl ch 0 S k =
           (fallback ch k, insert (g_slug (fallback ch k)) S,
            k\<lparr>names_drawn := names_drawn k + (maxAttempts - 0),
              randoms_drawn := randoms_drawn k + (maxAttempts - 0),
              clocks_read := clocks_read k + 1\<rparr>)"
      by (rule attempts_from_exhausted) (use a in \<open>simp add: maxAttempts_def\<close>)
    then show "generateUniqueSlug sl ch S k =
          (\<lparr>g_slug = ''course-'' @ decimal (Date_now ch (clocks_read k)),
            g_name = ''Course '' @ decimal (Date_now ch (clocks_read k))\<rparr>,
           insert (''course-'' @ decimal (Date_now ch (clocks_read k))) S,
           k\<lparr>names_drawn := names_drawn k + 100,
             randoms_drawn := randoms_drawn k + 100,
             clocks_read := clocks_read k + 1\<rparr>)"
      by (simp add: generateUniqueSlug_def fallback_def maxAttempts_def)
  qed
qed

theorem generateUniqueSlug_bounded_witness:
  "generateUniqueSlug slugify collision_chance {''books'', ''books-5''} no_calls =
     (\<lparr>g_slug = ''course-1700000000000'', g_name = ''Course 1700000000000''\<rparr>,
      {''course-1700000000000'', ''books'', ''books-5''},
      \<lparr>names_drawn = 100, randoms_drawn = 100, clocks_read = 1, paragraphs_drawn = 0\<rparr>)"
proof -
  have h: "\<forall>i<100. candidates_taken slugify collision_chance {''books'', ''books-5''} no_calls i"
    by (simp add: candidates_taken_def collision_chance_def slugify_Books decimal.simps digit_def)
  show ?thesis
    using generateUniqueSlug_bounded [of slugify collision_chance "{''books'', ''books-5''}" no_calls] h
    by (simp add: collision_chance_def no_calls_def decimal.simps digit_def)
qed

text \<open>
  A slug returned from inside the loop was not in the set; the fallback is the one
  return that reads the clock. As long as no call falls back, the slugs of
  \<open>coursesData\<close> are pairwise distinct.
\<close>

lemma attempts_from_result:
  assumes "attempts_from sl ch a S k = (g, S', k')"
  shows "S' = insert (g_slug g) S \<and> clocks_read k \<le> clocks_read k'
         \<and> (g_slug g \<notin> S \<or> clocks_read k' = clocks_read k + 1)"
  using assms
proof (induction n \<equiv> "maxAttempts - a" arbitrary: a k)
  case 0
  then show ?case
    by (auto simp: attempts_from.simps [of sl ch a S k] Let_def)
next
  case (Suc n)
  then have lt: "a < maxAttempts" by simp
  let ?k2 = "k\<lparr>names_drawn := names_drawn k + 1, randoms_drawn := randoms_drawn k + 1\<rparr>"
  have n: "n = maxAttempts - (a + 1)" using Suc.hyps(2) by simp
  show ?case
  proof (cases "candidates_taken sl ch S k 0")
    case True
    then have "attempts_from sl ch a S k = attempts_from sl ch (a + 1) S ?k2"
      using lt by (simp add: attempts_from.simps [of sl ch a S k] candidates_taken_def Let_def)
    with Suc.prems have "attempts_from sl ch (a + 1) S ?k2 = (g, S', k')" by simp
    from Suc.hyps(1) [OF n this] show ?thesis by simp
  next
    case False
    then show ?thesis
      using lt Suc.prems
      by (auto simp: attempts_from.simps [of sl ch a S k] candidates_taken_def Let_def
          split: if_splits)
  qed
qed

lemma coursesData_from_clock:
  assumes "coursesData_from sl ch deps len i S k acc = Inr (data, S', k')"
  shows "clocks_read k \<le> clocks_read k'"
  using assms
proof (induction n \<equiv> "len - i" arbitrary: i S k acc)
  case 0
  then show ?case
    by (simp add: coursesData_from.simps [of sl ch deps len i S k acc])
next
  case (Suc n)
  then have lt: "i < len" by simp
  let ?k1 = "k\<lparr>randoms_drawn := randoms_drawn k + 1\<rparr>"
  obtain g S1 k2 where gen: "generateUniqueSlug sl ch S ?k1 = (g, S1, k2)"
    by (cases "generateUniqueSlug sl ch S ?k1") auto
  have c: "clocks_read k \<le> clocks_read k2"
    using attempts_from_result [of sl ch 0 S ?k1 g S1 k2] gen
    by (simp add: generateUniqueSlug_def)
  have n: "n = len - (i + 1)" using Suc.hyps(2) by simp
  from Suc.prems lt gen obtain acc' where
    "coursesData_from sl ch deps len (i + 1) S1
       (k2\<lparr>paragraphs_drawn := paragraphs_drawn k2 + 1\<rparr>) acc' = Inr (data, S', k')"
    by (auto simp: coursesData_from.simps [of sl ch deps len i S k acc] Let_def
        split: if_splits)
  from Suc.hyps(1) [OF n this] c show ?case by simp
qed

lemma coursesData_from_distinct:
  assumes "coursesData_from sl ch deps len i S k acc = Inr (data, S', k')"
    and "clocks_read k' = clocks_read k"
    and "distinct (map nc_slug acc)" and "set (map nc_slug acc) \<subseteq> S"
  shows "distinct (map nc_slug data) \<and> set (map nc_slug data) \<subseteq> S'"
  using assms
proof (induction n \<equiv> "len - i" arbitrary: i S k acc)
  case 0
  then show ?case
    by (auto simp: coursesData_from.simps [of sl ch deps len i S k acc])
next
  case (Suc n)
  then have lt: "i < len" by simp
  let ?k1 = "k\<lparr>randoms_drawn := randoms_drawn k + 1\<rparr>"
  obtain g S1 k2 where gen: "generateUniqueSlug sl ch S ?k1 = (g, S1, k2)"
    by (cases "generateUniqueSlug sl ch S ?k1") auto
  have r: "S1 = insert (g_slug g) S" "clocks_read k \<le> clocks_read k2"
    "g_slug g \<notin> S \<or> clocks_read k2 = clocks_read k + 1"
    using attempts_from_result [of sl ch 0 S ?k1 g S1 k2] gen
    by (simp_all add: generateUniqueSlug_def)
  let ?k3 = "k2\<lparr>paragraphs_drawn := paragraphs_drawn k2 + 1\<rparr>"
  let ?acc = "acc @ [\<lparr>nc_name = g_name g, nc_slug = g_slug g,
                       nc_departmentId = deps ! Math_floor_random ch (randoms_drawn k) (length deps),
                       nc_description = faker_lorem_paragraph ch (paragraphs_drawn k2)\<rparr>]"
  have n: "n = len - (i + 1)" using Suc.hyps(2) by simp
  have next_: "coursesData_from sl ch deps len (i + 1) S1 ?k3 ?acc = Inr (data, S', k')"
    using Suc.prems(1) lt gen
    by (auto simp: coursesData_from.simps [of sl ch deps len i S k acc] Let_def
        split: if_splits)
  have "clocks_read ?k3 \<le> clocks_read k'"
    by (rule coursesData_from_clock [OF next_])
  with r Suc.prems(2) have same: "clocks_read k' = clocks_read ?k3" and fresh: "g_slug g \<notin> S"
    by auto
  have d: "distinct (map nc_slug ?acc)" and s: "set (map nc_slug ?acc) \<subseteq> S1"
    using Suc.prems(3,4) fresh r(1) by auto
  show ?case
    by (rule Suc.hyps(1) [OF n next_ same d s])
qed

section \<open>coursesSeeder: properties\<close>

lemma list_all_member_Nil: "list_all (\<lambda>x. f x \<in> set []) xs \<Longrightarrow> xs = []"
  by (cases xs) simp_all

lemma delete_all_courses_without_departments:
  assumes "departmentsTable s = []" and "referential_integrity s"
  shows "delete_all_courses s = s"
proof -
  have c: "coursesTable s = []"
    using assms by (simp add: referential_integrity_def list_all_member_Nil)
  have f: "fieldsTable s = []" and r: "lessonRostersTable s = []"
    and a: "coursesToAcademies s = []"
    using assms c by (auto simp: referential_integrity_def intro: list_all_member_Nil)
  have m: "marks s = []" and x: "sessionsTable s = []" and l: "studentsToLessonRosters s = []"
    using assms f r by (auto simp: referential_integrity_def intro: list_all_member_Nil)
  have t: "attendanceTable s = []"
    using assms x by (auto simp: referential_integrity_def intro: list_all_member_Nil)
  have "s\<lparr>coursesTable := [], fieldsTable := [], lessonRostersTable := [], marks := [],
          sessionsTable := [], attendanceTable := [], coursesToAcademies := [],
          studentsToLessonRosters := []\<rparr> = s"
    using c f r a m x l t by simp
  then show ?thesis
    by (simp add: delete_all_courses_def c f r a m x l t)
qed

text \<open>
  Claim C5. In a stored state with no department the course seeder returns normally,
  logs the notice and leaves the stored state as it was: no course is inserted, and
  the delete of all courses that comes first removes nothing, because with no
  department the foreign keys leave no course row (nor any row that depends on one).
\<close>

theorem coursesSeeder_without_departments:
  assumes "departmentsTable s = []" and "referential_integrity s"
  shows "coursesSeeder sl ch len s =
           (Returned, s, [''No departments found. Please seed departments first.''])"
  using assms
  by (simp add: coursesSeeder_def delete_all_courses_without_departments)

theorem coursesSeeder_without_departments_witness:
  "departmentsTable empty_db = [] \<and> referential_integrity empty_db
   \<and> coursesSeeder slugify collision_chance 5 empty_db =
       (Returned, empty_db, [''No departments found. Please seed departments first.''])"
proof -
  have h1: "departmentsTable empty_db = []" and h2: "referential_integrity empty_db"
    by (simp_all add: empty_db_def referential_integrity_def)
  show ?thesis
    using h1 h2 coursesSeeder_without_departments [OF h1 h2] by simp
qed

lemma generateUniqueSlug_first:
  "generateUniqueSlug slugify collision_chance {} k =
     (\<lparr>g_slug = ''books'', g_name = ''Books''\<rparr>, {''books''},
      k\<lparr>names_drawn := names_drawn k + 1\<rparr>)"
  by (simp add: generateUniqueSlug_def attempts_from.simps [of _ _ 0] maxAttempts_def
      collision_chance_def slugify_Books Let_def)

lemma generateUniqueSlug_second:
  "generateUniqueSlug slugify collision_chance {''books''} k =
     (\<lparr>g_slug = ''books-5'', g_name = ''Books''\<rparr>, {''books-5'', ''books''},
      k\<lparr>names_drawn := names_drawn k + 1, randoms_drawn := randoms_drawn k + 1\<rparr>)"
  by (simp add: generateUniqueSlug_def attempts_from.simps [of _ _ 0] maxAttempts_def
      collision_chance_def slugify_Books decimal.simps digit_def Let_def)

lemma generateUniqueSlug_fallback:
  assumes "''books'' \<in> S" and "''books-5'' \<in> S"
  shows "generateUniqueSlug slugify collision_chance S k =
     (\<lparr>g_slug = ''course-1700000000000'', g_name = ''Course 1700000000000''\<rparr>,
      insert ''course-1700000000000'' S,
      k\<lparr>names_drawn := names_drawn k + 100, randoms_drawn := randoms_drawn k + 100,
        clocks_read := clocks_read k + 1\<rparr>)"
proof -
  have "candidates_taken slugify collision_chance S k i" for i
    using assms
    by (simp add: candidates_taken_def collision_chance_def slugify_Books decimal.simps digit_def)
  then have "attempts_from slugify collision_chance 0 S k =
           (fallback collision_chance k, insert (g_slug (fallback collision_chance k)) S,
            k\<lparr>names_drawn := names_drawn k + (maxAttempts - 0),
              randoms_drawn := randoms_drawn k + (maxAttempts - 0),
              clocks_read := clocks_read k + 1\<rparr>)"
    by (rule attempts_from_exhausted)
  then show ?thesis
    by (simp add: generateUniqueSlug_def fallback_def maxAttempts_def collision_chance_def
        decimal.simps digit_def)
qed

text \<open>
  Claim C4, on the code. The fallback of \<open>generateUniqueSlug\<close> adds its slug to the set
  without looking whether it is there. In the run \<open>collision_chance\<close> with four
  courses, the third and the fourth call both fall back within the same millisecond
  and hand out the same slug; the bulk insert is rejected by the unique slug column,
  the seeder throws, and no course is stored.
\<close>

theorem coursesSeeder_fallback_slug_repeats:
  "coursesData_from slugify collision_chance [''d1'', ''d2''] 4 0 {} no_calls [] =
     Inr ([\<lparr>nc_name = ''Books'', nc_slug = ''books'',
            nc_departmentId = ''d1'', nc_description = ''Lorem ipsum.''\<rparr>,
           \<lparr>nc_name = ''Books'', nc_slug = ''books-5'',
            nc_departmentId = ''d1'', nc_description = ''Lorem ipsum.''\<rparr>,
           \<lparr>nc_name = ''Course 1700000000000'', nc_slug = ''course-1700000000000'',
            nc_departmentId = ''d1'', nc_description = ''Lorem ipsum.''\<rparr>,
           \<lparr>nc_name = ''Course 1700000000000'', nc_slug = ''course-1700000000000'',
            nc_departmentId = ''d1'', nc_description = ''Lorem ipsum.''\<rparr>],
          {''course-1700000000000'', ''books-5'', ''books''},
          \<lparr>names_drawn = 202, randoms_drawn = 205, clocks_read = 2, paragraphs_drawn = 4\<rparr>)
   \<and> coursesSeeder slugify collision_chance 4 example_db =
       (Threw QueryError, example_db\<lparr>coursesTable := []\<rparr>, [])"
proof -
  have pick: "Math_floor_random collision_chance r (Suc (Suc 0)) = 0"
    and par: "faker_lorem_paragraph collision_chance p = ''Lorem ipsum.''" for r p
    by (simp_all add: collision_chance_def)
  have loop: "coursesData_from slugify collision_chance [''d1'', ''d2''] 4 0 {} no_calls [] =
     Inr ([\<lparr>nc_name = ''Books'', nc_slug = ''books'',
            nc_departmentId = ''d1'', nc_description = ''Lorem ipsum.''\<rparr>,
           \<lparr>nc_name = ''Books'', nc_slug = ''books-5'',
            nc_departmentId = ''d1'', nc_description = ''Lorem ipsum.''\<rparr>,
           \<lparr>nc_name = ''Course 1700000000000'', nc_slug = ''course-1700000000000'',
            nc_departmentId = ''d1'', nc_description = ''Lorem ipsum.''\<rparr>,
           \<lparr>nc_name = ''Course 1700000000000'', nc_slug = ''course-1700000000000'',
            nc_departmentId = ''d1'', nc_description = ''Lorem ipsum.''\<rparr>],
          {''course-1700000000000'', ''books-5'', ''books''},
          \<lparr>names_drawn = 202, randoms_drawn = 205, clocks_read = 2, paragraphs_drawn = 4\<rparr>)"
    by (simp add: coursesData_from.simps pick par generateUniqueSlug_first
        generateUniqueSlug_second generateUniqueSlug_fallback no_calls_def Let_def)
  have del: "delete_all_courses example_db = example_db\<lparr>coursesTable := []\<rparr>"
    by (simp add: delete_all_courses_def example_db_def)
  have ids: "map d_id (departmentsTable example_db) = [''d1'', ''d2'']"
    and ne: "departmentsTable example_db \<noteq> []"
    by (simp_all add: example_db_def)
  have "coursesSeeder slugify collision_chance 4 example_db =
       (Threw QueryError, example_db\<lparr>coursesTable := []\<rparr>, [])"
    by (simp add: coursesSeeder_def del ids ne loop insert_courses_def course_of_def upt_rec Let_def)
  with loop show ?thesis by simp
qed

section \<open>userSeeder: properties\<close>

lemma takeWhile_digits_email:
  assumes "\<not> starts_with_digit e"
  shows "takeWhile is_digit (decimal i @ e) = decimal i"
proof -
  have "takeWhile is_digit e = []"
    using assms by (cases e) (simp_all add: starts_with_digit_def)
  then show ?thesis
    by (simp add: takeWhile_append2 decimal_digits)
qed

lemma email_at_inj:
  assumes "\<And>k. \<not> starts_with_digit (faker_internet_email ch k)"
    and "email_at ch i = email_at ch j"
  shows "i = j"
proof -
  have "takeWhile is_digit (email_at ch i) = takeWhile is_digit (email_at ch j)"
    using assms(2) by simp
  then have "decimal i = decimal j"
    by (simp add: email_at_def takeWhile_digits_email assms(1))
  then show ?thesis by (rule decimal_inj)
qed

lemma those_map_emails:
  "those (map (new_user_at ch roleIds t) xs) = Some users \<Longrightarrow>
     map u_email users = map (\<lambda>idx. email_at ch (t + idx)) xs"
proof (induction xs arbitrary: users)
  case Nil
  then show ?case by simp
next
  case (Cons x xs)
  then show ?case
    by (auto simp: new_user_at_def email_at_def split: option.splits)
qed

lemma map_shift_upt: "map (\<lambda>idx. f (t + idx)) [0..<b] = map f [t..<t + b]"
  by (induction b) simp_all

lemma users_from_emails:
  "\<exists>m. map u_email (generated_users (snd (users_from ch roleIds len t st))) =
         map u_email (generated_users st) @ map (email_at ch) [t..<m]"
proof (induction n \<equiv> "len - t" arbitrary: t st rule: less_induct)
  case less
  show ?case
  proof (cases "t < len")
    case False
    then have "map u_email (generated_users (snd (users_from ch roleIds len t st))) =
                 map u_email (generated_users st) @ map (email_at ch) [t..<t]"
      by (simp add: users_from.simps [of ch roleIds len t st])
    then show ?thesis by blast
  next
    case True
    let ?b = "min batchSize (len - t)"
    have b: "0 < ?b" using True by (simp add: batchSize_def)
    show ?thesis
    proof (cases "those (map (new_user_at ch roleIds t) [0..<?b])")
      case None
      then have "map u_email (generated_users (snd (users_from ch roleIds len t st))) =
                 map u_email (generated_users st) @ map (email_at ch) [t..<t]"
        using True by (simp add: users_from.simps [of ch roleIds len t st])
      then show ?thesis by blast
    next
      case (Some users)
      have e: "map u_email users = map (email_at ch) [t..<t + ?b]"
        using those_map_emails [OF Some] by (simp add: map_shift_upt)
      show ?thesis
      proof (cases "insert_users ch t users (usersTable st)")
        case None
        then have "map u_email (generated_users (snd (users_from ch roleIds len t st))) =
                 map u_email (generated_users st) @ map (email_at ch) [t..<t + ?b]"
          using True Some e by (simp add: users_from.simps [of ch roleIds len t st])
        then show ?thesis by blast
      next
        case (Some table)
        let ?st = "st\<lparr>usersTable := table,
                       generated_users := generated_users st @ users,
                       logged := logged st @
                         [''Batch inserted: '' @ decimal ?b
                          @ '' users (Total: '' @ decimal (t + ?b)
                          @ ''/'' @ decimal len @ '')'']\<rparr>"
        have step: "users_from ch roleIds len t st = users_from ch roleIds len (t + ?b) ?st"
          using True \<open>those (map (new_user_at ch roleIds t) [0..<?b]) = Some users\<close> Some
          by (simp add: users_from.simps [of ch roleIds len t st] Let_def)
        have "len - (t + ?b) < len - t" using True b by simp
        from less [OF this, of ?st] obtain m where
          m: "map u_email (generated_users (snd (users_from ch roleIds len (t + ?b) ?st))) =
              map u_email (generated_users ?st) @ map (email_at ch) [t + ?b..<m]"
          by blast
        have g: "map u_email (generated_users ?st) =
                   map u_email (generated_users st) @ map (email_at ch) [t..<t + ?b]"
          using e by simp
        have r: "map u_email (generated_users (snd (users_from ch roleIds len t st))) =
                   map u_email (generated_users st)
                   @ map (email_at ch) ([t..<t + ?b] @ [t + ?b..<m])"
          using m by (simp only: step g map_append append_assoc)
        show ?thesis
        proof (cases "t + ?b \<le> m")
          case True
          then have "[t..<t + ?b] @ [t + ?b..<m] = [t..<m]"
            by (metis le_add1 upt_add_eq_append le_Suc_ex)
          with r show ?thesis by metis
        next
          case False
          then have "[t..<t + ?b] @ [t + ?b..<m] = [t..<t + ?b]" by simp
          with r show ?thesis by metis
        qed
      qed
    qed
  qed
qed

lemma users_from_returned:
  assumes "fst (users_from ch roleIds len t st) = Returned" and "t \<le> len"
  shows "map u_email (generated_users (snd (users_from ch roleIds len t st))) =
           map u_email (generated_users st) @ map (email_at ch) [t..<len]"
  using assms
proof (induction n \<equiv> "len - t" arbitrary: t st rule: less_induct)
  case less
  show ?case
  proof (cases "t < len")
    case False
    with less.prems(2) have "t = len" by simp
    then show ?thesis
      by (simp add: users_from.simps [of ch roleIds len len st])
  next
    case True
    let ?b = "min batchSize (len - t)"
    have b: "0 < ?b" and le: "t + ?b \<le> len"
      using True by (simp_all add: batchSize_def)
    show ?thesis
    proof (cases "those (map (new_user_at ch roleIds t) [0..<?b])")
      case None
      then have "fst (users_from ch roleIds len t st) = Threw FakerError"
        using True by (simp add: users_from.simps [of ch roleIds len t st])
      with less.prems(1) show ?thesis by simp
    next
      case (Some users)
      have e: "map u_email users = map (email_at ch) [t..<t + ?b]"
        using those_map_emails [OF Some] by (simp add: map_shift_upt)
      show ?thesis
      proof (cases "insert_users ch t users (usersTable st)")
        case None
        then have "fst (users_from ch roleIds len t st) = Threw QueryError"
          using True Some by (simp add: users_from.simps [of ch roleIds len t st])
        with less.prems(1) show ?thesis by simp
      next
        case (Some table)
        let ?st = "st\<lparr>usersTable := table,
                       generated_users := generated_users st @ users,
                       logged := logged st @
                         [''Batch inserted: '' @ decimal ?b
                          @ '' users (Total: '' @ decimal (t + ?b)
                          @ ''/'' @ decimal len @ '')'']\<rparr>"
        have step: "users_from ch roleIds len t st = users_from ch roleIds len (t + ?b) ?st"
          using True \<open>those (map (new_user_at ch roleIds t) [0..<?b]) = Some users\<close> Some
          by (simp add: users_from.simps [of ch roleIds len t st] Let_def)
        have "len - (t + ?b) < len - t" using True b by simp
        moreover have "fst (users_from ch roleIds len (t + ?b) ?st) = Returned"
          using less.prems(1) by (simp only: step)
        ultimately have m:
          "map u_email (generated_users (snd (users_from ch roleIds len (t + ?b) ?st))) =
             map u_email (generated_users ?st) @ map (email_at ch) [t + ?b..<len]"
          using le by (rule less.hyps)
        have g: "map u_email (generated_users ?st) =
                   map u_email (generated_users st) @ map (email_at ch) [t..<t + ?b]"
          using e by simp
        have "[t..<t + ?b] @ [t + ?b..<len] = [t..<len]"
          using le by (metis le_add1 upt_add_eq_append le_Suc_ex)
        then have "map (email_at ch) [t..<t + ?b] @ map (email_at ch) [t + ?b..<len] =
                     map (email_at ch) [t..<len]"
          by (metis map_append)
        then show ?thesis
          using m by (simp only: step g append_assoc)
      qed
    qed
  qed
qed

text \<open>
  Claim C6. The environment hypothesis is that no address given by
  \<open>faker.internet.email()\<close> begins with a decimal digit: faker builds the local part
  from a person's name, so its addresses begin with a letter. Then, for every such
  outcome of the generator, the users generated in a run of the user seeder have
  pairwise distinct emails, because the index in front of the address is the longest
  run of digits the email starts with. A run that returns has generated exactly the
  \<open>N\<close> users asked for, the user with index \<open>i\<close> having the email made of \<open>i\<close> in
  decimal and the generated address.
\<close>

theorem userSeeder_emails_distinct:
  assumes "\<And>k. \<not> starts_with_digit (faker_internet_email ch k)"
  shows "distinct (map u_email (generated_users (snd (userSeeder ch roleIds len table))))
         \<and> (fst (userSeeder ch roleIds len table) = Returned \<longrightarrow>
              length (generated_users (snd (userSeeder ch roleIds len table))) = len
              \<and> map u_email (generated_users (snd (userSeeder ch roleIds len table))) =
                  map (\<lambda>i. decimal i @ faker_internet_email ch i) [0..<len])"
proof
  obtain m where
    "map u_email (generated_users (snd (userSeeder ch roleIds len table))) =
       map (email_at ch) [0..<m]"
    using users_from_emails [of ch roleIds len 0
        "\<lparr>usersTable = [], generated_users = [], logged = []\<rparr>"]
    by (auto simp: userSeeder_def)
  moreover have "inj_on (email_at ch) (set [0..<m])"
    by (rule inj_onI) (rule email_at_inj [OF assms])
  ultimately show "distinct (map u_email (generated_users (snd (userSeeder ch roleIds len table))))"
    by (simp add: distinct_map)
next
  show "fst (userSeeder ch roleIds len table) = Returned \<longrightarrow>
              length (generated_users (snd (userSeeder ch roleIds len table))) = len
              \<and> map u_email (generated_users (snd (userSeeder ch roleIds len table))) =
                  map (\<lambda>i. decimal i @ faker_internet_email ch i) [0..<len]"
  proof
    assume "fst (userSeeder ch roleIds len table) = Returned"
    then have e: "map u_email (generated_users (snd (userSeeder ch roleIds len table))) =
                 map (email_at ch) [0..<len]"
      using users_from_returned [of ch roleIds len 0
          "\<lparr>usersTable = [], generated_users = [], logged = []\<rparr>"]
      by (simp add: userSeeder_def)
    then have "length (map u_email (generated_users (snd (userSeeder ch roleIds len table)))) =
                 length (map (email_at ch) [0..<len])"
      by (rule arg_cong)
    then have "length (generated_users (snd (userSeeder ch roleIds len table))) = len"
      by simp
    moreover have "map (email_at ch) [0..<len] =
                     map (\<lambda>i. decimal i @ faker_internet_email ch i) [0..<len]"
      by (simp add: email_at_def)
    ultimately show "length (generated_users (snd (userSeeder ch roleIds len table))) = len
              \<and> map u_email (generated_users (snd (userSeeder ch roleIds len table))) =
                  map (\<lambda>i. decimal i @ faker_internet_email ch i) [0..<len]"
      using e by simp
  qed
qed

theorem userSeeder_emails_distinct_witness:
  "(\<forall>k. \<not> starts_with_digit (faker_internet_email plain_user_chance k))
   \<and> fst (userSeeder plain_user_chance [''role-1''] 3 []) = Returned
   \<and> map u_email (generated_users (snd (userSeeder plain_user_chance [''role-1''] 3 []))) =
       [''0jane@example.com'', ''1jane@example.com'', ''2jane@example.com'']
   \<and> distinct (map u_email (generated_users (snd (userSeeder plain_user_chance [''role-1''] 3 []))))"
proof -
  have h: "\<not> starts_with_digit (faker_internet_email plain_user_chance k)" for k
    by (simp add: plain_user_chance_def starts_with_digit_def is_digit_def)
  have r: "fst (userSeeder plain_user_chance [''role-1''] 3 []) = Returned"
    by (simp add: userSeeder_def users_from.simps batchSize_def new_user_at_def
        plain_user_chance_def insert_users_def user_row_of_def string_eval upt_rec)
  have m: "map (\<lambda>i. decimal i @ faker_internet_email plain_user_chance i) [0..<3] =
        [''0jane@example.com'', ''1jane@example.com'', ''2jane@example.com'']"
    by (simp add: plain_user_chance_def decimal.simps digit_def upt_rec)
  show ?thesis
    using h r m userSeeder_emails_distinct [of plain_user_chance "[''role-1'']" 3 "[]", OF h]
    by simp
qed

text \<open>
  The hypothesis speaks about the generator. With an address that begins with a digit
  the prefix would not tell the indices apart: index 1 before \<open>0x@example.com\<close> and
  index 10 before \<open>x@example.com\<close> read the same.
\<close>

lemma digit_leading_address_repeats:
  "\<not> distinct (map u_email (generated_users (snd (userSeeder clash_user_chance [''role-1''] 11 []))))"
  by (simp add: userSeeder_def users_from.simps batchSize_def new_user_at_def clash_user_chance_def
       insert_users_def user_row_of_def string_eval upt_rec)

end
